theory Spec2Isabelle
  imports Main "HOL-Library.Sublist"
begin

section \<open>Action dispatcher: \<open>call_n8n_action\<close> (app/n8n\_client.py)\<close>

text \<open>
  The dispatcher posts one payload to the gateway up to \<open>MAX_RETRIES\<close> times. What a
  single POST does is the environment's choice, so the gateway is a function from the
  attempt index (the loop variable \<open>attempt\<close>) to the outcome of that POST. The payload
  (action, session id, callback URL, timestamp, parameters) is the same at every attempt
  and does not influence the control flow; only \<open>action\<close> is copied into the envelope.
\<close>

definition MAX_RETRIES :: nat where "MAX_RETRIES = 3"
definition BASE_DELAY_MS :: nat where "BASE_DELAY_MS = 500"
definition MAX_DELAY_MS :: nat where "MAX_DELAY_MS = 2000"

text \<open>
  Outcome of \<open>client.post\<close>: a response (status code, body text, and what
  \<open>response.json()\<close> gives: the parsed payload, or the message of the exception it
  raises on a body that is not JSON), or an exception raised by the transport
  (\<open>httpx.TimeoutException\<close>, or any other \<open>Exception\<close>), carrying \<open>str(e)\<close>.
\<close>

datatype outcome =
    Response (status_code: int) (body_text: string) (json_body: "string + string")
  | TimeoutException string
  | OtherException string

text \<open>The three dictionaries the function returns, one constructor for each.\<close>

datatype envelope =
    Succeeded (action: string) (data: string) (attempts: nat)
  | ClientError (action: string) (error: string) (details: string) (attempts: nat)
  | RetriesExceeded (action: string) (error: string) (last_error: "string option") (attempts: nat)

fun success :: "envelope \<Rightarrow> bool" where
  "success (Succeeded _ _ _) = True"
| "success (ClientError _ _ _ _) = False"
| "success (RetriesExceeded _ _ _ _) = False"

text \<open>Observable effects of a dispatch, in order: POSTs and sleeps (in milliseconds).\<close>

datatype effect = Post nat | Sleep nat

text \<open>Python's \<open>str\<close> on an integer, used by the f-string of the client-error branch.\<close>

definition digit_char :: "nat \<Rightarrow> char" where
  "digit_char d = char_of (48 + d)"

function str_nat :: "nat \<Rightarrow> string" where
  "str_nat n = (if n < 10 then [digit_char n] else str_nat (n div 10) @ [digit_char (n mod 10)])"
  by pat_completeness auto
termination
  by (relation "measure (\<lambda>n. n)") auto

declare str_nat.simps [simp del]

definition str_int :: "int \<Rightarrow> string" where
  "str_int i = (if i < 0 then CHR ''-'' # str_nat (nat (- i)) else str_nat (nat i))"

text \<open>
  \<open>min(BASE_DELAY_MS * (2 ** attempt), MAX_DELAY_MS) / 1000\<close>: the source divides by 1000
  to pass seconds to \<open>asyncio.sleep\<close>; the model keeps the milliseconds.
\<close>

definition delay_ms :: "nat \<Rightarrow> nat" where
  "delay_ms attempt = min (BASE_DELAY_MS * 2 ^ attempt) MAX_DELAY_MS"

text \<open>
  The body of \<open>for attempt in range(MAX_RETRIES)\<close>, as recursion over the remaining
  attempt indices. An exception raised inside the \<open>try\<close> block (also by
  \<open>response.json()\<close> on a 200/201 response) is caught, recorded in \<open>last_error\<close> and
  followed by a sleep; the 429 and 5xx branches sleep and \<open>continue\<close> without touching
  \<open>last_error\<close>.
\<close>

fun attempt_loop ::
  "(nat \<Rightarrow> outcome) \<Rightarrow> string \<Rightarrow> string option \<Rightarrow> effect list \<Rightarrow> nat list
     \<Rightarrow> envelope \<times> effect list" where
  "attempt_loop post act last_err tr [] =
     (RetriesExceeded act ''Max retries exceeded'' last_err MAX_RETRIES, tr)"
| "attempt_loop post act last_err tr (attempt # rest) =
     (case post attempt of
        Response sc body js \<Rightarrow>
          if sc = 200 \<or> sc = 201 then
            (case js of
               Inr result \<Rightarrow> (Succeeded act result (attempt + 1), tr @ [Post attempt])
             | Inl e \<Rightarrow>
                 attempt_loop post act (Some e)
                   (tr @ [Post attempt, Sleep (delay_ms attempt)]) rest)
          else if sc = 429 then
            attempt_loop post act last_err (tr @ [Post attempt, Sleep (delay_ms attempt)]) rest
          else if sc \<ge> 500 then
            attempt_loop post act last_err (tr @ [Post attempt, Sleep (delay_ms attempt)]) rest
          else
            (ClientError act (''Client error: '' @ str_int sc) body (attempt + 1),
             tr @ [Post attempt])
      | TimeoutException e \<Rightarrow>
          attempt_loop post act (Some e) (tr @ [Post attempt, Sleep (delay_ms attempt)]) rest
      | OtherException e \<Rightarrow>
          attempt_loop post act (Some e) (tr @ [Post attempt, Sleep (delay_ms attempt)]) rest)"

definition call_n8n_action :: "(nat \<Rightarrow> outcome) \<Rightarrow> string \<Rightarrow> envelope \<times> effect list" where
  "call_n8n_action post act = attempt_loop post act None [] [0..<MAX_RETRIES]"

text \<open>
  Vocabulary for the retry policy: the outcomes after which the loop goes on to the next
  attempt, the error a caught exception leaves in \<open>last_error\<close>, and the effects of a run
  of retried attempts.
\<close>

fun retried :: "outcome \<Rightarrow> bool" where
  "retried (Response sc body js) =
     (sc = 429 \<or> sc \<ge> 500 \<or> ((sc = 200 \<or> sc = 201) \<and> isl js))"
| "retried (TimeoutException e) = True"
| "retried (OtherException e) = True"

fun caught :: "outcome \<Rightarrow> string option" where
  "caught (Response sc body js) =
     (if sc = 200 \<or> sc = 201 then (case js of Inl e \<Rightarrow> Some e | Inr _ \<Rightarrow> None) else None)"
| "caught (TimeoutException e) = Some e"
| "caught (OtherException e) = Some e"

fun last_caught :: "(nat \<Rightarrow> outcome) \<Rightarrow> string option \<Rightarrow> nat list \<Rightarrow> string option" where
  "last_caught post le [] = le"
| "last_caught post le (i # ks) =
     last_caught post (case caught (post i) of Some e \<Rightarrow> Some e | None \<Rightarrow> le) ks"

definition retry_effects :: "nat list \<Rightarrow> effect list" where
  "retry_effects ks = concat (map (\<lambda>i. [Post i, Sleep (delay_ms i)]) ks)"

fun is_post :: "effect \<Rightarrow> bool" where
  "is_post (Post _) = True"
| "is_post (Sleep _) = False"

section \<open>Conversation context (app/conversation\_context.py)\<close>

text \<open>
  Texts are lists of characters with code points below 256 (the type \<open>char\<close>).
  \<open>datetime\<close> values are integers counting microseconds, the resolution of Python's
  \<open>datetime\<close>; \<open>timedelta.total_seconds() >= n\<close> for an integer \<open>n\<close> is then
  \<open>n * 1000000 \<le> now - then\<close>. Every \<open>datetime.utcnow()\<close> is an argument of the function
  that reads the clock. Logging is not modelled.
\<close>

text \<open>\<open>str.lower\<close> on code points below 256: A-Z and the Latin-1 capitals move by 32.\<close>

definition lower_char :: "char \<Rightarrow> char" where
  "lower_char c =
     (let n = (of_char c :: nat)
      in if (65 \<le> n \<and> n \<le> 90) \<or> (192 \<le> n \<and> n \<le> 222 \<and> n \<noteq> 215)
         then char_of (n + 32) else c)"

definition lower :: "string \<Rightarrow> string" where
  "lower s = map lower_char s"

text \<open>\<open>s.startswith(p)\<close> and the substring test \<open>kw in s\<close>.\<close>

fun starts_with :: "string \<Rightarrow> string \<Rightarrow> bool" where
  "starts_with [] s = True"
| "starts_with (p # ps) [] = False"
| "starts_with (p # ps) (c # cs) = (p = c \<and> starts_with ps cs)"

fun str_in :: "string \<Rightarrow> string \<Rightarrow> bool" where
  "str_in kw [] = (kw = [])"
| "str_in kw (c # cs) = (starts_with kw (c # cs) \<or> str_in kw cs)"

record turn =
  role :: string
  content :: string
  timestamp :: int

record ConversationContext =
  session_id :: string
  history :: "turn list"
  max_history :: nat
  user_sentiment :: string
  topic_stack :: "string list"
  clarification_count :: nat
  retry_count :: nat
  created_at :: int
  last_user_speech_time :: "int option"
  silence_count :: nat

text \<open>\<open>ConversationContext(session_id, max_history)\<close>; \<open>now\<close> is the clock read.\<close>

definition new_context :: "string \<Rightarrow> nat \<Rightarrow> int \<Rightarrow> ConversationContext" where
  "new_context sid maxlen now =
     \<lparr>session_id = sid, history = [], max_history = maxlen, user_sentiment = ''neutral'',
      topic_stack = [], clarification_count = 0, retry_count = 0, created_at = now,
      last_user_speech_time = None, silence_count = 0\<rparr>"

text \<open>\<open>deque(maxlen=n).append(x)\<close>: a full deque drops from the left.\<close>

definition deque_append :: "nat \<Rightarrow> 'a list \<Rightarrow> 'a \<Rightarrow> 'a list" where
  "deque_append maxlen xs x = (let ys = xs @ [x] in drop (length ys - maxlen) ys)"

definition frustration_keywords :: "string list" where
  "frustration_keywords =
     [''frustrated'', ''annoyed'', ''angry'', ''upset'', ''ridiculous'',
      ''forget it'', ''never mind'', ''this is stupid'', ''waste of time'',
      ''not working'', ''doesn't work'', ''broken'']"

definition confusion_keywords :: "string list" where
  "confusion_keywords =
     [''confused'', ''don't understand'', ''what'', ''huh'', ''unclear'',
      ''not sure'', ''don't get it'', ''explain'', ''clarify'', ''repeat'']"

definition satisfaction_keywords :: "string list" where
  "satisfaction_keywords =
     [''great'', ''perfect'', ''excellent'', ''wonderful'', ''awesome'',
      ''thank you'', ''thanks'', ''appreciate'', ''helpful'', ''good'']"

definition detect_sentiment :: "string \<Rightarrow> string" where
  "detect_sentiment txt =
     (let text_lower = lower txt
      in if list_ex (\<lambda>kw. str_in kw text_lower) frustration_keywords then ''frustrated''
         else if list_ex (\<lambda>kw. str_in kw text_lower) confusion_keywords then ''confused''
         else if list_ex (\<lambda>kw. str_in kw text_lower) satisfaction_keywords then ''satisfied''
         else ''neutral'')"

definition clarification_patterns :: "string list" where
  "clarification_patterns =
     [''what'', ''huh'', ''repeat'', ''again'', ''didn't catch'',
      ''didn't hear'', ''pardon'', ''sorry'', ''unclear'']"

definition is_clarification_request :: "string \<Rightarrow> bool" where
  "is_clarification_request txt =
     (let text_lower = lower txt
      in list_ex (\<lambda>pattern. str_in pattern text_lower) clarification_patterns)"

text \<open>
  \<open>add_turn(role, content)\<close> reads the clock once for the turn's timestamp and, for a user
  turn, once more for \<open>last_user_speech_time\<close>.
\<close>

definition add_turn ::
  "ConversationContext \<Rightarrow> string \<Rightarrow> string \<Rightarrow> int \<Rightarrow> int \<Rightarrow> ConversationContext" where
  "add_turn c r txt now_turn now_speech =
     (let c1 = c\<lparr>history :=
                  deque_append (max_history c) (history c)
                    \<lparr>role = r, content = txt, timestamp = now_turn\<rparr>\<rparr>
      in if r = ''user'' then
           let c2 = c1\<lparr>last_user_speech_time := Some now_speech,
                      silence_count := 0,
                      user_sentiment := detect_sentiment txt\<rparr>
           in if is_clarification_request txt
              then c2\<lparr>clarification_count := clarification_count c2 + 1\<rparr>
              else c2
         else c1)"

definition get_silence_duration :: "ConversationContext \<Rightarrow> int \<Rightarrow> int option" where
  "get_silence_duration c now =
     (case last_user_speech_time c of None \<Rightarrow> None | Some t \<Rightarrow> Some (now - t))"

definition seconds :: "int \<Rightarrow> int" where
  "seconds n = n * 1000000"

definition should_check_presence :: "ConversationContext \<Rightarrow> int \<Rightarrow> bool" where
  "should_check_presence c now =
     (case get_silence_duration c now of None \<Rightarrow> False | Some d \<Rightarrow> seconds 6 \<le> d)"

definition get_silence_response ::
  "ConversationContext \<Rightarrow> int \<Rightarrow> string option \<times> ConversationContext" where
  "get_silence_response c now =
     (case get_silence_duration c now of
        None \<Rightarrow> (None, c)
      | Some silence_duration \<Rightarrow>
          if seconds 18 \<le> silence_duration \<and> silence_count c < 3 then
            (Some (''I haven't heard from you in a while. Let me connect you with our team. ''
                   @ ''One moment please.''),
             c\<lparr>silence_count := 3\<rparr>)
          else if seconds 12 \<le> silence_duration \<and> silence_count c < 2 then
            (Some ''Take your time. I'll wait for you to respond.'', c\<lparr>silence_count := 2\<rparr>)
          else if seconds 6 \<le> silence_duration \<and> silence_count c < 1 then
            (Some ''Are you still there? I'm here to help.'', c\<lparr>silence_count := 1\<rparr>)
          else (None, c))"

definition increment_retry :: "ConversationContext \<Rightarrow> ConversationContext" where
  "increment_retry c = c\<lparr>retry_count := retry_count c + 1\<rparr>"

definition reset_retry :: "ConversationContext \<Rightarrow> ConversationContext" where
  "reset_retry c = c\<lparr>retry_count := 0\<rparr>"

text \<open>
  A sequence of method calls on one context, each with its clock reads, and the values
  the \<open>get_silence_response\<close> calls return, in order.
\<close>

datatype context_call =
    GetSilenceResponse int
  | AddTurn string string int int
  | IncrementRetry
  | ResetRetry

fun run_calls ::
  "ConversationContext \<Rightarrow> context_call list \<Rightarrow> string option list \<times> ConversationContext" where
  "run_calls c [] = ([], c)"
| "run_calls c (GetSilenceResponse now # calls) =
     (let (r, c1) = get_silence_response c now;
          (rs, c2) = run_calls c1 calls
      in (r # rs, c2))"
| "run_calls c (AddTurn r txt now_turn now_speech # calls) =
     run_calls (add_turn c r txt now_turn now_speech) calls"
| "run_calls c (IncrementRetry # calls) = run_calls (increment_retry c) calls"
| "run_calls c (ResetRetry # calls) = run_calls (reset_retry c) calls"

fun is_user_turn :: "context_call \<Rightarrow> bool" where
  "is_user_turn (AddTurn r txt now_turn now_speech) = (r = ''user'')"
| "is_user_turn _ = False"

text \<open>
  Vocabulary for the silence escalation: the level a silence has reached (how many of the
  thresholds 6 s, 12 s, 18 s it has crossed), the message of a level, and the level of a
  message.
\<close>

definition silence_level :: "ConversationContext \<Rightarrow> int \<Rightarrow> nat" where
  "silence_level c now =
     (case get_silence_duration c now of
        None \<Rightarrow> 0
      | Some d \<Rightarrow> if seconds 18 \<le> d then 3 else if seconds 12 \<le> d then 2
                  else if seconds 6 \<le> d then 1 else 0)"

definition silence_message :: "nat \<Rightarrow> string" where
  "silence_message level =
     (if level = 1 then ''Are you still there? I'm here to help.''
      else if level = 2 then ''Take your time. I'll wait for you to respond.''
      else ''I haven't heard from you in a while. Let me connect you with our team. ''
           @ ''One moment please.'')"

definition message_level :: "string \<Rightarrow> nat" where
  "message_level m =
     (if m = silence_message 1 then 1 else if m = silence_message 2 then 2
      else if m = silence_message 3 then 3 else 0)"

definition fired :: "string option list \<Rightarrow> string list" where
  "fired rs = concat (map (\<lambda>r. case r of None \<Rightarrow> [] | Some m \<Rightarrow> [m]) rs)"

section \<open>Session registry: \<open>TTLDict\<close> (app/inbound\_deepgram.py)\<close>

text \<open>
  Python values that travel through the registry and the relay: JSON-shaped data. A
  \<open>dict\<close> is an association list in insertion order, as Python keeps it.
\<close>

datatype json =
    JNull
  | JBool bool
  | JNum int
  | JStr string
  | JArr "json list"
  | JObj "(string \<times> json) list"

text \<open>\<open>d[k] = v\<close> keeps the position of an existing key and appends a new one.\<close>

fun dict_set :: "'k \<Rightarrow> 'v \<Rightarrow> ('k \<times> 'v) list \<Rightarrow> ('k \<times> 'v) list" where
  "dict_set k v [] = [(k, v)]"
| "dict_set k v ((k', v') # d) = (if k' = k then (k, v) # d else (k', v') # dict_set k v d)"

text \<open>\<open>d.pop(k, None)\<close> and \<open>del d[k]\<close> for a key that is present.\<close>

definition dict_del :: "'k \<Rightarrow> ('k \<times> 'v) list \<Rightarrow> ('k \<times> 'v) list" where
  "dict_del k d = filter (\<lambda>(k', v). k' \<noteq> k) d"

text \<open>\<open>d.update(updates)\<close>: every item of \<open>updates\<close> is stored in turn.\<close>

definition dict_update :: "('k \<times> 'v) list \<Rightarrow> ('k \<times> 'v) list \<Rightarrow> ('k \<times> 'v) list" where
  "dict_update d updates = foldl (\<lambda>acc (k, v). dict_set k v acc) d updates"

datatype py_error = KeyError

text \<open>
  The registry: the \<open>OrderedDict\<close> from key to (timestamp, value), the time to live in
  seconds and the capacity. The lock is not modelled: each method runs as one step.
\<close>

record TTLDict =
  odict :: "(string \<times> int \<times> json) list"
  ttl_seconds :: int
  max_size :: int

definition new_TTLDict :: "int \<Rightarrow> int \<Rightarrow> TTLDict" where
  "new_TTLDict ttl_secs capacity = \<lparr>odict = [], ttl_seconds = ttl_secs, max_size = capacity\<rparr>"

text \<open>
  \<open>_evict_expired\<close> collects the keys with \<open>now - ts >= timedelta(seconds=ttl)\<close> and
  deletes them: the entries that stay are those with \<open>now - ts < ttl\<close>.
\<close>

definition evict_expired :: "TTLDict \<Rightarrow> int \<Rightarrow> TTLDict" where
  "evict_expired d now =
     d\<lparr>odict := filter (\<lambda>(k, ts, v). \<not> seconds (ttl_seconds d) \<le> now - ts) (odict d)\<rparr>"

text \<open>
  \<open>set\<close> reads the clock twice: in \<open>_evict_expired\<close> and for the new timestamp.
  \<open>popitem(last=False)\<close> on an empty \<open>OrderedDict\<close> raises \<open>KeyError\<close>; the sweep has
  happened by then.
\<close>

definition ttl_set ::
  "TTLDict \<Rightarrow> string \<Rightarrow> json \<Rightarrow> int \<Rightarrow> int \<Rightarrow> py_error option \<times> TTLDict" where
  "ttl_set d key val now_sweep now_stamp =
     (let d1 = evict_expired d now_sweep
      in if max_size d1 \<le> int (length (odict d1)) then
           (case odict d1 of
              [] \<Rightarrow> (Some KeyError, d1)
            | oldest # rest \<Rightarrow> (None, d1\<lparr>odict := dict_set key (now_stamp, val) rest\<rparr>))
         else (None, d1\<lparr>odict := dict_set key (now_stamp, val) (odict d1)\<rparr>))"

definition ttl_get :: "TTLDict \<Rightarrow> string \<Rightarrow> json \<Rightarrow> int \<Rightarrow> json \<times> TTLDict" where
  "ttl_get d key dflt now =
     (case map_of (odict d) key of
        Some (ts, val) \<Rightarrow>
          if now - ts < seconds (ttl_seconds d) then (val, d)
          else (dflt, d\<lparr>odict := dict_del key (odict d)\<rparr>)
      | None \<Rightarrow> (dflt, d))"

text \<open>
  \<open>update\<close>: \<open>val.update(updates)\<close> on a live \<open>dict\<close> value, stored back with the
  timestamp \<open>ts\<close> it was read with.
\<close>

definition ttl_update ::
  "TTLDict \<Rightarrow> string \<Rightarrow> (string \<times> json) list \<Rightarrow> int \<Rightarrow> bool \<times> TTLDict" where
  "ttl_update d key updates now =
     (case map_of (odict d) key of
        Some (ts, val) \<Rightarrow>
          if now - ts < seconds (ttl_seconds d) then
            (case val of
               JObj items \<Rightarrow>
                 (True, d\<lparr>odict := dict_set key (ts, JObj (dict_update items updates)) (odict d)\<rparr>)
             | _ \<Rightarrow> (False, d))
          else (False, d)
      | None \<Rightarrow> (False, d))"

definition ttl_delete :: "TTLDict \<Rightarrow> string \<Rightarrow> TTLDict" where
  "ttl_delete d key = d\<lparr>odict := dict_del key (odict d)\<rparr>"

definition ttl_contains :: "TTLDict \<Rightarrow> string \<Rightarrow> int \<Rightarrow> bool \<times> TTLDict" where
  "ttl_contains d key now =
     (case map_of (odict d) key of
        Some (ts, val) \<Rightarrow>
          if now - ts < seconds (ttl_seconds d) then (True, d)
          else (False, d\<lparr>odict := dict_del key (odict d)\<rparr>)
      | None \<Rightarrow> (False, d))"

definition ttl_values :: "TTLDict \<Rightarrow> int \<Rightarrow> json list \<times> TTLDict" where
  "ttl_values d now =
     (let d1 = evict_expired d now in (map (\<lambda>(k, ts, val). val) (odict d1), d1))"

definition ttl_len :: "TTLDict \<Rightarrow> int \<Rightarrow> nat \<times> TTLDict" where
  "ttl_len d now = (let d1 = evict_expired d now in (length (odict d1), d1))"

text \<open>
  A sequence of calls on one registry, each with its clock reads. An exception of \<open>set\<close>
  goes to its caller; the registry stays as the call left it.
\<close>

datatype registry_call =
    Set string json int int
  | Get string json int
  | Update string "(string \<times> json) list" int
  | Delete string
  | Contains string int
  | Values int
  | Len int

fun registry_step :: "TTLDict \<Rightarrow> registry_call \<Rightarrow> TTLDict" where
  "registry_step d (Set key val now_sweep now_stamp) = snd (ttl_set d key val now_sweep now_stamp)"
| "registry_step d (Get key dflt now) = snd (ttl_get d key dflt now)"
| "registry_step d (Update key updates now) = snd (ttl_update d key updates now)"
| "registry_step d (Delete key) = ttl_delete d key"
| "registry_step d (Contains key now) = snd (ttl_contains d key now)"
| "registry_step d (Values now) = snd (ttl_values d now)"
| "registry_step d (Len now) = snd (ttl_len d now)"

definition run_registry :: "TTLDict \<Rightarrow> registry_call list \<Rightarrow> TTLDict" where
  "run_registry d calls = foldl registry_step d calls"

fun is_update :: "registry_call \<Rightarrow> bool" where
  "is_update (Update key updates now) = True"
| "is_update _ = False"

text \<open>The keys of the registry with their timestamps, in insertion order.\<close>

definition stamps :: "TTLDict \<Rightarrow> (string \<times> int) list" where
  "stamps d = map (\<lambda>(k, ts, val). (k, ts)) (odict d)"

section \<open>Output sanitizer (app/tts\_sanitizer.py)\<close>

subsection \<open>The regular expressions of the module\<close>

text \<open>
  The patterns of this module are sequences of two kinds of items: the word boundary
  \<open>\b\<close>, and a character class repeated greedily between a least and a greatest number
  of times (\<open>x\<close>, \<open>x?\<close>, \<open>x*\<close>, \<open>x+\<close>, \<open>x{m}\<close>, \<open>x{m,n}\<close>, \<open>x{m,}\<close>). Every group
  of a pattern encloses one item, so a match is reported as the text each item consumed.
  The classes \<open>\w\<close>, \<open>\s\<close> and \<open>\d\<close> are those of Python's \<open>re\<close> on \<open>str\<close>, for code
  points below 256.
\<close>

definition is_word :: "char \<Rightarrow> bool" where
  "is_word c =
     (let n = (of_char c :: nat)
      in (48 \<le> n \<and> n \<le> 57) \<or> (65 \<le> n \<and> n \<le> 90) \<or> n = 95 \<or> (97 \<le> n \<and> n \<le> 122)
         \<or> n = 170 \<or> n = 178 \<or> n = 179 \<or> n = 181 \<or> n = 185 \<or> n = 186
         \<or> n = 188 \<or> n = 189 \<or> n = 190
         \<or> (192 \<le> n \<and> n \<le> 214) \<or> (216 \<le> n \<and> n \<le> 246) \<or> 248 \<le> n)"

definition is_space :: "char \<Rightarrow> bool" where
  "is_space c =
     (let n = (of_char c :: nat)
      in (9 \<le> n \<and> n \<le> 13) \<or> (28 \<le> n \<and> n \<le> 32) \<or> n = 133 \<or> n = 160)"

definition is_digit :: "char \<Rightarrow> bool" where
  "is_digit c = (let n = (of_char c :: nat) in 48 \<le> n \<and> n \<le> 57)"

datatype cls =
    Ch char
  | ICh char
  | Range char char
  | Digit
  | WordChar
  | Space
  | OneOf "cls list"
  | NoneOf "cls list"

text \<open>
  \<open>ICh x\<close> is the literal \<open>x\<close> of a pattern compiled with \<open>re.IGNORECASE\<close>: below 256
  it matches the characters with the same lower case.
\<close>

fun in_cls :: "cls \<Rightarrow> char \<Rightarrow> bool" where
  "in_cls (Ch x) c = (c = x)"
| "in_cls (ICh x) c = (lower_char c = lower_char x)"
| "in_cls (Range a b) c = ((of_char a :: nat) \<le> of_char c \<and> (of_char c :: nat) \<le> of_char b)"
| "in_cls Digit c = is_digit c"
| "in_cls WordChar c = is_word c"
| "in_cls Space c = is_space c"
| "in_cls (OneOf ks) c = list_ex (\<lambda>k. in_cls k c) ks"
| "in_cls (NoneOf ks) c = (\<not> list_ex (\<lambda>k. in_cls k c) ks)"

datatype atom = Boundary | Rep cls nat "nat option"

type_synonym regex = "atom list"

definition lit :: "string \<Rightarrow> regex" where
  "lit s = map (\<lambda>c. Rep (Ch c) 1 (Some 1)) s"

definition ilit :: "string \<Rightarrow> regex" where
  "ilit s = map (\<lambda>c. Rep (ICh c) 1 (Some 1)) s"

definition one :: "cls \<Rightarrow> atom" where "one k = Rep k 1 (Some 1)"
definition opt :: "cls \<Rightarrow> atom" where "opt k = Rep k 0 (Some 1)"
definition star :: "cls \<Rightarrow> atom" where "star k = Rep k 0 None"
definition plus :: "cls \<Rightarrow> atom" where "plus k = Rep k 1 None"
definition times :: "nat \<Rightarrow> cls \<Rightarrow> atom" where "times n k = Rep k n (Some n)"

text \<open>\<open>\b\<close>: exactly one of the characters before and after the position is a word character.\<close>

definition at_boundary :: "char option \<Rightarrow> string \<Rightarrow> bool" where
  "at_boundary prev s =
     ((case prev of None \<Rightarrow> False | Some p \<Rightarrow> is_word p)
        \<noteq> (case s of [] \<Rightarrow> False | c # cs \<Rightarrow> is_word c))"

primrec first_some :: "('a \<Rightarrow> 'b option) \<Rightarrow> 'a list \<Rightarrow> 'b option" where
  "first_some f [] = None"
| "first_some f (x # xs) = (case f x of Some y \<Rightarrow> Some y | None \<Rightarrow> first_some f xs)"

text \<open>
  The numbers of repetitions a greedy item tries, largest first: as many characters of
  the class as the text has at this position, up to the item's maximum, down to its
  minimum.
\<close>

definition counts :: "cls \<Rightarrow> nat \<Rightarrow> nat option \<Rightarrow> string \<Rightarrow> nat list" where
  "counts k lo hi s =
     (let n = length (takeWhile (in_cls k) s);
          m = (case hi of None \<Rightarrow> n | Some h \<Rightarrow> min h n)
      in rev [lo..<Suc m])"

text \<open>
  Match a pattern at one position, backtracking as \<open>re\<close> does: \<open>prev\<close> is the character
  before the position, \<open>s\<close> the text from it. The result is the text consumed by each
  item and the text left.
\<close>

primrec match_here :: "regex \<Rightarrow> char option \<Rightarrow> string \<Rightarrow> (string list \<times> string) option" where
  "match_here [] prev s = Some ([], s)"
| "match_here (a # as) prev s =
     (case a of
        Boundary \<Rightarrow>
          if at_boundary prev s
          then map_option (\<lambda>(gs, rest). ([] # gs, rest)) (match_here as prev s)
          else None
      | Rep k lo hi \<Rightarrow>
          first_some
            (\<lambda>n. map_option (\<lambda>(gs, rest). (take n s # gs, rest))
                   (match_here as (if n = 0 then prev else Some (s ! (n - 1))) (drop n s)))
            (counts k lo hi s))"

text \<open>
  \<open>re.sub(pattern, repl, text)\<close>, scanning from the left: a match is replaced and the
  scan goes on behind it; where nothing matches, the character is copied. An empty match
  is replaced and the scan moves on by one character.
\<close>

function sub_from :: "regex \<Rightarrow> (string list \<Rightarrow> string) \<Rightarrow> char option \<Rightarrow> string \<Rightarrow> string" where
  "sub_from rx repl prev s =
     (case match_here rx prev s of
        Some (gs, rest) \<Rightarrow>
          (let n = length s - length rest
           in if n = 0 then
                repl gs @ (case s of [] \<Rightarrow> [] | c # cs \<Rightarrow> c # sub_from rx repl (Some c) cs)
              else repl gs @ sub_from rx repl (Some (s ! (n - 1))) (drop n s))
      | None \<Rightarrow> (case s of [] \<Rightarrow> [] | c # cs \<Rightarrow> c # sub_from rx repl (Some c) cs))"
  by pat_completeness auto
termination
  by (relation "measure (\<lambda>(rx, repl, prev, s). length s)") auto

declare sub_from.simps [simp del]

definition re_sub :: "regex \<Rightarrow> (string list \<Rightarrow> string) \<Rightarrow> string \<Rightarrow> string" where
  "re_sub rx repl s = sub_from rx repl None s"

subsection \<open>String methods\<close>

text \<open>\<open>s.replace(old, new)\<close>: occurrences from the left, not overlapping.\<close>

function str_replace :: "string \<Rightarrow> string \<Rightarrow> string \<Rightarrow> string" where
  "str_replace old new s =
     (if old = [] then new @ concat (map (\<lambda>c. c # new) s)
      else case s of
             [] \<Rightarrow> []
           | c # cs \<Rightarrow>
               if starts_with old s then new @ str_replace old new (drop (length old) s)
               else c # str_replace old new cs)"
  by pat_completeness auto
termination
  by (relation "measure (\<lambda>(old, new, s). length s)") auto

declare str_replace.simps [simp del]

definition strip :: "string \<Rightarrow> string" where
  "strip s = rev (dropWhile is_space (rev (dropWhile is_space s)))"

text \<open>\<open>sep.join(parts)\<close>.\<close>

fun join :: "string \<Rightarrow> string list \<Rightarrow> string" where
  "join sep [] = []"
| "join sep [x] = x"
| "join sep (x # y # ys) = x @ sep @ join sep (y # ys)"

text \<open>\<open>', '.join(list(digits))\<close>.\<close>

definition spoken :: "string \<Rightarrow> string" where
  "spoken digits = join '', '' (map (\<lambda>c. [c]) digits)"

subsection \<open>The sanitizer\<close>

definition word_pattern :: "string \<Rightarrow> regex" where
  "word_pattern w = Boundary # ilit w @ [Boundary]"

definition keyword_pattern :: "string \<Rightarrow> regex" where
  "keyword_pattern w = Boundary # ilit w @ [plus Space]"

text \<open>\<open>FORBIDDEN_REGEX\<close>: the patterns of \<open>FORBIDDEN_PATTERNS\<close>, compiled with \<open>re.IGNORECASE\<close>.\<close>

definition FORBIDDEN_REGEX :: "regex list" where
  "FORBIDDEN_REGEX =
     [Boundary # ilit ''initiate_'' @ [plus WordChar, Boundary],
      Boundary # ilit ''collect_'' @ [plus WordChar, Boundary],
      Boundary # ilit ''confirm_and_'' @ [plus WordChar, Boundary],
      word_pattern ''search_web'',
      word_pattern ''get_current_datetime'',
      word_pattern ''get_location_info'',
      word_pattern ''send_email'',
      word_pattern ''send_sms'',
      word_pattern ''send_whatsapp'',
      word_pattern ''book_appointment'',
      word_pattern ''reschedule_appointment'',
      word_pattern ''cancel_appointment'',
      ilit ''{'' @ [star (NoneOf [ICh CHR ''}''])] @ ilit ''}'',
      ilit ''['' @ [star (NoneOf [ICh CHR '']''])] @ ilit '']'',
      ilit ''<'' @ [star (NoneOf [ICh CHR ''>''])] @ ilit ''>'',
      Boundary # ilit ''function('',
      keyword_pattern ''await'',
      keyword_pattern ''async'',
      keyword_pattern ''return'',
      keyword_pattern ''const'',
      keyword_pattern ''let'',
      keyword_pattern ''var'',
      word_pattern ''N8N'',
      word_pattern ''n8n'',
      word_pattern ''webhook'',
      word_pattern ''API'',
      word_pattern ''JSON'',
      word_pattern ''HTTP'',
      word_pattern ''REST'',
      Boundary # ilit ''error'' @ [plus Space] @ ilit ''code'' @ [plus Space, plus Digit],
      Boundary # ilit ''session'' @ [plus Space] @ ilit ''state'' @ [Boundary],
      word_pattern ''database'',
      word_pattern ''supabase'',
      word_pattern ''CRM'',
      word_pattern ''endpoint'',
      word_pattern ''payload'',
      word_pattern ''request'',
      word_pattern ''response'']"

text \<open>The class \<open>[-.\s]\<close> of the phone patterns.\<close>

definition phone_sep :: cls where
  "phone_sep = OneOf [Ch CHR ''-'', Ch CHR ''.'', Space]"

definition pattern_intl :: regex where
  "pattern_intl =
     lit ''+'' @ [Rep Digit 1 (Some 3), opt phone_sep, times 3 Digit, opt phone_sep,
                 times 3 Digit, opt phone_sep, times 4 Digit]"

fun replace_intl :: "string list \<Rightarrow> string" where
  "replace_intl [p, country, s1, area, s2, first_part, s3, last_part] =
     ''country code '' @ spoken country @ '', '' @ spoken area @ '', '' @ spoken first_part
       @ '', '' @ spoken last_part"
| "replace_intl gs = []"

definition pattern_us :: regex where
  "pattern_us =
     lit ''('' @ [times 3 Digit] @ lit '')'' @ [opt Space, times 3 Digit, opt phone_sep,
                                                times 4 Digit]"

fun replace_us :: "string list \<Rightarrow> string" where
  "replace_us [p, area, q, s1, first_part, s2, last_part] =
     spoken area @ '', '' @ spoken first_part @ '', '' @ spoken last_part"
| "replace_us gs = []"

definition pattern_plain :: regex where
  "pattern_plain = [Boundary, times 10 Digit, Boundary]"

fun replace_plain :: "string list \<Rightarrow> string" where
  "replace_plain [b1, number, b2] =
     spoken (take 3 number) @ '', '' @ spoken (take 3 (drop 3 number)) @ '', ''
       @ spoken (drop 6 number)"
| "replace_plain gs = []"

definition pattern_local :: regex where
  "pattern_local = [Boundary, times 3 Digit, opt phone_sep, times 4 Digit, Boundary]"

fun replace_local :: "string list \<Rightarrow> string" where
  "replace_local [b1, first_part, s1, last_part, b2] = spoken first_part @ '', '' @ spoken last_part"
| "replace_local gs = []"

definition format_phone_numbers_for_speech :: "string \<Rightarrow> string" where
  "format_phone_numbers_for_speech s =
     re_sub pattern_local replace_local
       (re_sub pattern_plain replace_plain
          (re_sub pattern_us replace_us
             (re_sub pattern_intl replace_intl s)))"

definition alnum :: "cls list" where
  "alnum = [Range CHR ''a'' CHR ''z'', Range CHR ''A'' CHR ''Z'', Range CHR ''0'' CHR ''9'']"

definition email_pattern :: regex where
  "email_pattern =
     [Boundary,
      plus (OneOf (alnum @ [Ch CHR ''.'', Ch CHR ''_'', Ch CHR ''%'', Ch CHR ''+'', Ch CHR ''-''])),
      one (Ch CHR ''@''),
      plus (OneOf (alnum @ [Ch CHR ''.'', Ch CHR ''-''])),
      one (Ch CHR ''.''),
      Rep (OneOf [Range CHR ''a'' CHR ''z'', Range CHR ''A'' CHR ''Z'']) 2 None,
      Boundary]"

text \<open>\<open>re.sub(r'([a-z])([A-Z])', r'\1 \2', domain)\<close>.\<close>

definition camel_pattern :: regex where
  "camel_pattern = [one (Range CHR ''a'' CHR ''z''), one (Range CHR ''A'' CHR ''Z'')]"

fun replace_camel :: "string list \<Rightarrow> string" where
  "replace_camel [l, u] = l @ '' '' @ u"
| "replace_camel gs = []"

fun replace_email :: "string list \<Rightarrow> string" where
  "replace_email [b1, local, at_sign, domain, dot, tld, b2] =
     (let local_spoken = str_replace ''.'' '' dot '' local;
          domain_spoken =
            str_replace ''.'' '' dot ''
              (str_replace ''AI'' ''A I''
                 (str_replace ''ai'' ''A I'' (re_sub camel_pattern replace_camel domain)))
      in local_spoken @ '' at '' @ domain_spoken @ '' dot '' @ tld)"
| "replace_email gs = []"

definition format_emails_for_speech :: "string \<Rightarrow> string" where
  "format_emails_for_speech s = re_sub email_pattern replace_email s"

definition collapse_whitespace :: "string \<Rightarrow> string" where
  "collapse_whitespace s = re_sub [plus Space] (\<lambda>gs. '' '') s"

definition replacements :: "(string \<times> string) list" where
  "replacements =
     [(''#'', '' number ''), (''@'', '' at ''), (''$'', '' dollars ''),
      (''%'', '' percent ''), (''&'', '' and ''), (''*'', '' ''), (''_'', '' ''),
      (''|'', '' ''), (''~'', '' ''), (''^'', '' ''), (''`'', '' ''),
      (''='', '' equals ''), (''+'', '' plus '')]"

definition remove_tts_unfriendly_chars :: "string \<Rightarrow> string" where
  "remove_tts_unfriendly_chars s =
     strip (collapse_whitespace
       (foldl (\<lambda>t (old, new). str_replace old new t) s replacements))"

definition remove_forbidden :: "string \<Rightarrow> string" where
  "remove_forbidden s = foldl (\<lambda>t rx. re_sub rx (\<lambda>gs. []) t) s FORBIDDEN_REGEX"

definition strip_brackets :: "string \<Rightarrow> string" where
  "strip_brackets s =
     str_replace ''>'' [] (str_replace ''<'' [] (str_replace '']'' [] (str_replace ''['' []
       (str_replace ''}'' [] (str_replace ''{'' [] s)))))"

definition sanitize_for_tts :: "string \<Rightarrow> string" where
  "sanitize_for_tts raw =
     (if raw = [] then []
      else
        let t1 = remove_forbidden raw;
            t2 = format_phone_numbers_for_speech t1;
            t3 = format_emails_for_speech t2;
            t4 = remove_tts_unfriendly_chars t3;
            t5 = strip (collapse_whitespace t4)
        in if CHR ''{'' \<in> set t5 \<or> CHR ''['' \<in> set t5 \<or> CHR ''<'' \<in> set t5
           then strip (collapse_whitespace (strip_brackets t5))
           else t5)"

text \<open>
  Vocabulary for the whitespace pass: what \<open>re.sub(r'\s+', ' ', s)\<close> computes, written
  as a plain recursion, and the texts it leaves unchanged.
\<close>

function squeeze :: "string \<Rightarrow> string" where
  "squeeze [] = []"
| "squeeze (c # cs) =
     (if is_space c then CHR '' '' # squeeze (dropWhile is_space cs) else c # squeeze cs)"
  by pat_completeness auto
termination
  by (relation "measure length") (auto simp: le_imp_less_Suc length_dropWhile_le)

definition squeezed :: "string \<Rightarrow> bool" where
  "squeezed s \<longleftrightarrow>
     list_all (\<lambda>c. is_space c = (c = CHR '' '')) s
     \<and> successively (\<lambda>a b. \<not> (is_space a \<and> is_space b)) s"

text \<open>The characters \<open>remove_tts_unfriendly_chars\<close> replaces.\<close>

definition unfriendly :: "char set" where
  "unfriendly = {c. [c] \<in> fst ` set replacements}"

section \<open>Relay engine: the inbound pumps (app/inbound\_deepgram.py, app/browser\_ws.py)\<close>

text \<open>
  The inbound pump reads the frames of the agent socket one after the other
  (\<open>async for message in deepgram_ws\<close>). A frame is binary audio or a text that
  \<open>json.loads\<close> has parsed. What the pump does to the world is sending: to the agent
  socket and to the client socket. A send can raise; whether the send after \<open>n\<close>
  successful ones raises is the environment's choice. \<open>handle_function_call\<close> lives in
  \<open>app/function_handler.py\<close>, which is not among the sources: it is a parameter, giving
  for a function name, its arguments and a session id either the result or the
  \<open>Exception\<close> it raises. Exceptions are kept as the name of their class or their message.
  Logging is not modelled, except where evaluating the logged expression can raise.
  All clock reads made while one frame is handled return the frame's \<open>now\<close>.
\<close>

datatype frame = Binary string | Message json

datatype handler_result = Returned json | Raised string

record env =
  handle_function_call :: "json \<Rightarrow> json \<Rightarrow> json \<Rightarrow> handler_result"
  agent_send_raises :: "nat \<Rightarrow> bool"
  client_send_raises :: "nat \<Rightarrow> bool"

text \<open>
  The \<open>function_call_id\<close> of a response: the one read from the request, or the one the
  telephony relay makes up from the clock (\<open>generated_<timestamp>\<close>).
\<close>

datatype call_id = FromRequest json | Generated int

text \<open>
  \<open>FunctionCallResponse i v\<close> is the message
  \<open>{"type": "FunctionCallResponse", "function_call_id": i, "output": json.dumps(v)}\<close>.
\<close>

datatype agent_msg = FunctionCallResponse call_id json

text \<open>Python's truth value of a JSON value, \<open>a or b\<close>, and \<open>d.get(k, default)\<close>.\<close>

fun truthy :: "json \<Rightarrow> bool" where
  "truthy JNull = False"
| "truthy (JBool b) = b"
| "truthy (JNum n) = (n \<noteq> 0)"
| "truthy (JStr s) = (s \<noteq> [])"
| "truthy (JArr xs) = (xs \<noteq> [])"
| "truthy (JObj kvs) = (kvs \<noteq> [])"

definition py_or :: "json \<Rightarrow> json \<Rightarrow> json" where
  "py_or a b = (if truthy a then a else b)"

definition dget :: "(string \<times> json) list \<Rightarrow> string \<Rightarrow> json \<Rightarrow> json" where
  "dget d k dflt = (case map_of d k of Some v \<Rightarrow> v | None \<Rightarrow> dflt)"

definition apology :: json where
  "apology = JObj [(''speak'', JStr ''I'm sorry, something went wrong. Could you try again?'')]"

text \<open>
  The log line \<open>result.get('speak', 'no speak')[:50]\<close> after a response has been sent:
  it raises when \<open>result\<close> is no \<open>dict\<close> or its \<open>speak\<close> cannot be sliced.
\<close>

definition log_speak :: "json \<Rightarrow> string option" where
  "log_speak result =
     (case result of
        JObj r \<Rightarrow>
          (case dget r ''speak'' (JStr ''no speak'') of
             JStr s \<Rightarrow> None
           | JArr xs \<Rightarrow> None
           | _ \<Rightarrow> Some ''TypeError'')
      | _ \<Rightarrow> Some ''AttributeError'')"

text \<open>The name and id of the function and its arguments, as both pumps read them.\<close>

definition request_name :: "(string \<times> json) list \<Rightarrow> json" where
  "request_name m = py_or (dget m ''function_name'' JNull) (dget m ''name'' JNull)"

definition request_id :: "(string \<times> json) list \<Rightarrow> json" where
  "request_id m = py_or (dget m ''function_call_id'' JNull) (dget m ''id'' JNull)"

definition request_arguments :: "(string \<times> json) list \<Rightarrow> json" where
  "request_arguments m = py_or (dget m ''input'' JNull) (dget m ''arguments'' (JObj []))"

subsection \<open>The telephony pump: \<open>deepgram_to_twilio\<close>\<close>

text \<open>
  Messages to Twilio: \<open>Media sid audio\<close> is the \<open>media\<close> event with the base64 text of
  \<open>audio\<close> as payload, \<open>Clear sid\<close> the \<open>clear\<close> event.
\<close>

datatype twilio_msg = Media json string | Clear json

text \<open>
  Entries of \<open>transcript\<close>: a spoken turn (role, content, time), the record of a function
  call (\<open>FunctionLog name speak time\<close> for the content \<open>f"{name}: {speak}"\<close>), and the
  truncation marker.
\<close>

datatype transcript_entry =
    Spoken json json int
  | FunctionLog json json int
  | Truncated int

definition MAX_TRANSCRIPT_ENTRIES :: nat where
  "MAX_TRANSCRIPT_ENTRIES = 500"

text \<open>
  The state the pump works on. \<open>call_sid\<close> and \<open>call_metadata\<close> are written by the other
  pump and only read here. \<open>context_turns\<close> lists the calls
  \<open>get_context(call_sid).add_turn(role, content)\<close> made so far, as (session, role,
  content).
\<close>

record twilio_state =
  to_agent :: "agent_msg list"
  to_twilio :: "twilio_msg list"
  transcript :: "transcript_entry list"
  last_user_speech :: "int option"
  context_turns :: "(json \<times> json \<times> json) list"
  call_sid :: json
  call_metadata :: "(string \<times> json) list"

text \<open>
  \<open>add_turn(role, content)\<close> on a content that is no \<open>str\<close> raises: for a user turn in
  \<open>content.lower()\<close>, for any turn in the log line \<open>content[:100]\<close> when the content
  cannot be sliced.
\<close>

definition add_turn_raises :: "json \<Rightarrow> json \<Rightarrow> string option" where
  "add_turn_raises r c =
     (case c of
        JStr s \<Rightarrow> None
      | JArr xs \<Rightarrow> if r = JStr ''user'' then Some ''AttributeError'' else None
      | _ \<Rightarrow> if r = JStr ''user'' then Some ''AttributeError'' else Some ''TypeError'')"

definition send_agent ::
  "env \<Rightarrow> twilio_state \<Rightarrow> agent_msg \<Rightarrow> twilio_state \<times> string option" where
  "send_agent e st msg =
     (if agent_send_raises e (length (to_agent st)) then (st, Some ''ConnectionClosed'')
      else (st\<lparr>to_agent := to_agent st @ [msg]\<rparr>, None))"

definition send_twilio ::
  "env \<Rightarrow> twilio_state \<Rightarrow> twilio_msg \<Rightarrow> twilio_state \<times> string option" where
  "send_twilio e st msg =
     (if client_send_raises e (length (to_twilio st)) then (st, Some ''WebSocketDisconnect'')
      else (st\<lparr>to_twilio := to_twilio st @ [msg]\<rparr>, None))"

text \<open>
  The \<open>try\<close> block of the \<open>FunctionCallRequest\<close> branch: the call, the response, the log
  line, the transcript entry and the assistant turn. The result is the state reached
  and the exception that left the block, if any.
\<close>

definition twilio_call_try ::
  "env \<Rightarrow> twilio_state \<Rightarrow> json \<Rightarrow> call_id \<Rightarrow> json \<Rightarrow> int
     \<Rightarrow> twilio_state \<times> string option" where
  "twilio_call_try e st function_name function_id arguments now =
     (case handle_function_call e function_name arguments (call_sid st) of
        Raised ex \<Rightarrow> (st, Some ex)
      | Returned result \<Rightarrow>
          (case send_agent e st (FunctionCallResponse function_id result) of
             (st1, Some ex) \<Rightarrow> (st1, Some ex)
           | (st1, None) \<Rightarrow>
               (case log_speak result of
                  Some ex \<Rightarrow> (st1, Some ex)
                | None \<Rightarrow>
                    (case result of
                       JObj r \<Rightarrow>
                         let speak = dget r ''speak'' (JStr []);
                             st2 = (if length (transcript st1) < MAX_TRANSCRIPT_ENTRIES
                                    then st1\<lparr>transcript := transcript st1
                                                  @ [FunctionLog function_name speak now]\<rparr>
                                    else st1)
                         in if truthy (call_sid st2) then
                              (st2\<lparr>context_turns := context_turns st2
                                       @ [(call_sid st2, JStr ''assistant'', speak)]\<rparr>,
                               add_turn_raises (JStr ''assistant'') speak)
                            else (st2, None)
                     | _ \<Rightarrow> (st1, Some ''AttributeError'')))))"

definition twilio_function_call ::
  "env \<Rightarrow> twilio_state \<Rightarrow> (string \<times> json) list \<Rightarrow> int \<Rightarrow> twilio_state \<times> string option" where
  "twilio_function_call e st m now =
     (let function_name = request_name m;
          function_id = (if truthy (request_id m) then FromRequest (request_id m)
                         else Generated now);
          arguments = request_arguments m
      in case twilio_call_try e st function_name function_id arguments now of
           (st1, None) \<Rightarrow> (st1, None)
         | (st1, Some ex) \<Rightarrow> send_agent e st1 (FunctionCallResponse function_id apology))"

definition twilio_conversation_text ::
  "twilio_state \<Rightarrow> (string \<times> json) list \<Rightarrow> int \<Rightarrow> twilio_state \<times> string option" where
  "twilio_conversation_text st m now =
     (let r = dget m ''role'' JNull;
          c = dget m ''content'' JNull;
          st1 = (if r = JStr ''user'' then st\<lparr>last_user_speech := Some now\<rparr> else st);
          st2 = (if r = JStr ''user'' \<and> truthy (call_sid st1)
                 then st1\<lparr>context_turns := context_turns st1 @ [(call_sid st1, r, c)]\<rparr>
                 else st1);
          raised = (if r = JStr ''user'' \<and> truthy (call_sid st1) then add_turn_raises r c
                    else None)
      in case raised of
           Some ex \<Rightarrow> (st2, Some ex)
         | None \<Rightarrow>
             if length (transcript st2) < MAX_TRANSCRIPT_ENTRIES then
               (st2\<lparr>transcript := transcript st2 @ [Spoken r c now]\<rparr>, None)
             else if length (transcript st2) = MAX_TRANSCRIPT_ENTRIES then
               (st2\<lparr>transcript := transcript st2 @ [Truncated now]\<rparr>, None)
             else (st2, None))"

text \<open>
  One turn of the loop. A text frame that is no JSON object fails at \<open>msg_json.get\<close>. An
  \<open>Error\<close> frame is logged unless its code is the idle timeout; nothing is sent.
\<close>

definition deepgram_to_twilio_step ::
  "env \<Rightarrow> twilio_state \<Rightarrow> frame \<Rightarrow> int \<Rightarrow> twilio_state \<times> string option" where
  "deepgram_to_twilio_step e st f now =
     (case f of
        Binary audio \<Rightarrow>
          send_twilio e st (Media (dget (call_metadata st) ''stream_sid'' JNull) audio)
      | Message (JObj m) \<Rightarrow>
          (let msg_type = dget m ''type'' JNull
           in if msg_type = JStr ''ConversationText'' then twilio_conversation_text st m now
              else if msg_type = JStr ''FunctionCallRequest'' then twilio_function_call e st m now
              else if msg_type = JStr ''Error'' then (st, None)
              else if msg_type = JStr ''UserStartedSpeaking'' then
                (let stream_sid = dget (call_metadata st) ''stream_sid'' JNull
                 in if truthy stream_sid then send_twilio e st (Clear stream_sid)
                    else (st, None))
              else (st, None))
      | Message other \<Rightarrow> (st, Some ''AttributeError''))"

text \<open>
  The loop over the frames, each with its clock reading. An exception ends it and goes to
  the caller.
\<close>

fun deepgram_to_twilio ::
  "env \<Rightarrow> twilio_state \<Rightarrow> (frame \<times> int) list \<Rightarrow> twilio_state \<times> string option" where
  "deepgram_to_twilio e st [] = (st, None)"
| "deepgram_to_twilio e st ((f, now) # frames) =
     (case deepgram_to_twilio_step e st f now of
        (st1, Some ex) \<Rightarrow> (st1, Some ex)
      | (st1, None) \<Rightarrow> deepgram_to_twilio e st1 frames)"

subsection \<open>The browser pump: \<open>deepgram_to_browser\<close>\<close>

text \<open>
  Messages to the browser: \<open>WebsocketAudio audio\<close> is \<open>websocket_audio\<close> with the base64
  text of \<open>audio\<close>; \<open>ErrorEvent v\<close> is
  \<open>{"type": "error", "message": f"Deepgram error: {v}"}\<close>; \<open>Event v\<close> is the JSON value
  \<open>v\<close> as it is.
\<close>

datatype browser_msg = WebsocketAudio string | ErrorEvent json | Event json

record browser_state =
  to_agent_b :: "agent_msg list"
  to_browser :: "browser_msg list"
  browser_session_id :: json

definition send_agent_b ::
  "env \<Rightarrow> browser_state \<Rightarrow> agent_msg \<Rightarrow> browser_state \<times> string option" where
  "send_agent_b e st msg =
     (if agent_send_raises e (length (to_agent_b st)) then (st, Some ''ConnectionClosed'')
      else (st\<lparr>to_agent_b := to_agent_b st @ [msg]\<rparr>, None))"

definition send_browser ::
  "env \<Rightarrow> browser_state \<Rightarrow> browser_msg \<Rightarrow> browser_state \<times> string option" where
  "send_browser e st msg =
     (if client_send_raises e (length (to_browser st)) then (st, Some ''WebSocketDisconnect'')
      else (st\<lparr>to_browser := to_browser st @ [msg]\<rparr>, None))"

definition browser_call_try ::
  "env \<Rightarrow> browser_state \<Rightarrow> json \<Rightarrow> call_id \<Rightarrow> json \<Rightarrow> browser_state \<times> string option" where
  "browser_call_try e st function_name function_id arguments =
     (case handle_function_call e function_name arguments (browser_session_id st) of
        Raised ex \<Rightarrow> (st, Some ex)
      | Returned result \<Rightarrow>
          (case send_agent_b e st (FunctionCallResponse function_id result) of
             (st1, Some ex) \<Rightarrow> (st1, Some ex)
           | (st1, None) \<Rightarrow> (st1, log_speak result)))"

definition browser_function_call ::
  "env \<Rightarrow> browser_state \<Rightarrow> (string \<times> json) list \<Rightarrow> browser_state \<times> string option" where
  "browser_function_call e st m =
     (let function_name = request_name m;
          function_id = FromRequest (request_id m);
          arguments = request_arguments m
      in case browser_call_try e st function_name function_id arguments of
           (st1, None) \<Rightarrow> (st1, None)
         | (st1, Some ex) \<Rightarrow> send_agent_b e st1 (FunctionCallResponse function_id apology))"

definition deepgram_to_browser_step ::
  "env \<Rightarrow> browser_state \<Rightarrow> frame \<Rightarrow> browser_state \<times> string option" where
  "deepgram_to_browser_step e st f =
     (case f of
        Binary audio \<Rightarrow> send_browser e st (WebsocketAudio audio)
      | Message (JObj m) \<Rightarrow>
          (let msg_type = dget m ''type'' JNull
           in if msg_type = JStr ''UserStartedSpeaking'' then
                send_browser e st (Event (JObj [(''type'', JStr ''user_started_speaking'')]))
              else if msg_type = JStr ''AgentStartedSpeaking'' then
                send_browser e st (Event (JObj [(''type'', JStr ''agent_started_speaking'')]))
              else if msg_type = JStr ''ConversationText'' then
                (let r = dget m ''role'' JNull; c = dget m ''content'' JNull
                 in if r = JStr ''assistant'' then
                      send_browser e st
                        (Event (JObj [(''type'', JStr ''agent_response''), (''text'', c)]))
                    else if r = JStr ''user'' then
                      send_browser e st
                        (Event (JObj [(''type'', JStr ''websocket_transcript''), (''text'', c)]))
                    else (st, None))
              else if msg_type = JStr ''FunctionCallRequest'' then browser_function_call e st m
              else if msg_type = JStr ''Error'' then
                (let error_code = dget m ''code'' (JStr [])
                 in if error_code = JStr ''CLIENT_MESSAGE_TIMEOUT'' then (st, None)
                    else send_browser e st
                           (ErrorEvent (dget m ''message'' (JStr ''Unknown error''))))
              else send_browser e st (Event (JObj m)))
      | Message other \<Rightarrow> (st, Some ''AttributeError''))"

fun deepgram_to_browser ::
  "env \<Rightarrow> browser_state \<Rightarrow> frame list \<Rightarrow> browser_state \<times> string option" where
  "deepgram_to_browser e st [] = (st, None)"
| "deepgram_to_browser e st (f # frames) =
     (case deepgram_to_browser_step e st f of
        (st1, Some ex) \<Rightarrow> (st1, Some ex)
      | (st1, None) \<Rightarrow> deepgram_to_browser e st1 frames)"

section \<open>Verification of the action dispatcher\<close>

text \<open>Attempts with a retried outcome are skipped over, each leaving a POST and a sleep.\<close>

lemma attempt_loop_retried:
  "\<forall>i\<in>set ks. retried (post i) \<Longrightarrow>
   attempt_loop post act le tr (ks @ rest) =
   attempt_loop post act (last_caught post le ks) (tr @ retry_effects ks) rest"
proof (induction ks arbitrary: le tr)
  case Nil
  then show ?case by (simp add: retry_effects_def)
next
  case (Cons a ks)
  then have r: "retried (post a)" and rs: "\<forall>i\<in>set ks. retried (post i)" by simp_all
  show ?case
  proof (cases "post a")
    case (Response sc body js)
    with r Cons.IH [OF rs] show ?thesis
      by (cases js) (auto simp: retry_effects_def)
  next
    case (TimeoutException e)
    with Cons.IH [OF rs] show ?thesis by (simp add: retry_effects_def)
  next
    case (OtherException e)
    with Cons.IH [OF rs] show ?thesis by (simp add: retry_effects_def)
  qed
qed

lemma upt_split_at:
  assumes "k < n"
  shows "[0..<n] = [0..<k] @ k # [Suc k..<n]"
proof -
  have "[0..<k + (n - k)] = [0..<k] @ [k..<k + (n - k)]"
    by (rule upt_add_eq_append) simp
  moreover have "k + (n - k) = n" using assms by simp
  moreover have "[k..<n] = k # [Suc k..<n]" using assms by (rule upt_conv_Cons)
  ultimately show ?thesis by simp
qed

lemma call_n8n_action_at:
  assumes "k < MAX_RETRIES" and "\<forall>i<k. retried (post i)"
  shows "call_n8n_action post act =
         attempt_loop post act (last_caught post None [0..<k]) (retry_effects [0..<k])
           (k # [Suc k..<MAX_RETRIES])"
proof -
  have "\<forall>i\<in>set [0..<k]. retried (post i)" using assms(2) by simp
  from attempt_loop_retried [OF this, of act None "[]" "k # [Suc k..<MAX_RETRIES]"]
  show ?thesis
    unfolding call_n8n_action_def using upt_split_at [OF assms(1)] by simp
qed

lemma attempt_loop_posts:
  "length (filter is_post (snd (attempt_loop post act le tr ks)))
     \<le> length (filter is_post tr) + length ks"
proof (induction ks arbitrary: le tr)
  case Nil
  then show ?case by simp
next
  case (Cons a ks)
  have step: "length (filter is_post
                 (snd (attempt_loop post act le' (tr @ [Post a, Sleep (delay_ms a)]) ks)))
       \<le> length (filter is_post tr) + length (a # ks)" for le'
    using Cons.IH [of le' "tr @ [Post a, Sleep (delay_ms a)]"] by simp
  show ?case
  proof (cases "post a")
    case (Response sc body js)
    then show ?thesis using step by (cases js) auto
  next
    case (TimeoutException e)
    then show ?thesis using step by simp
  next
    case (OtherException e)
    then show ?thesis using step by simp
  qed
qed

text \<open>
  The course of a dispatch, read off the loop. Let attempts \<open>0 .. k-1\<close> be retried
  (HTTP 429, HTTP \<open>\<ge> 500\<close>, a transport exception, or a 200/201 whose body is not
  JSON), with \<open>k < MAX_RETRIES\<close>. Then:
  \<^item> a 200 or 201 with a JSON body at attempt \<open>k\<close> returns success at once with
    \<open>attempts = k + 1\<close>;
  \<^item> any other status below 500 except 429 at attempt \<open>k\<close> returns the client-error
    envelope at once with \<open>attempts = k + 1\<close> (so \<open>1\<close> on the first attempt), and the
    POST of attempt \<open>k\<close> is the last effect: no sleep and no further POST;
  \<^item> a retried outcome at the last attempt gives the "Max retries exceeded" envelope;
  \<^item> every retried attempt \<open>i\<close> is followed by a sleep of
    \<open>min (500 * 2 ^ i) 2000\<close> milliseconds;
  \<^item> no dispatch makes more than \<open>MAX_RETRIES\<close> POSTs.
\<close>

theorem call_n8n_action_retry_policy:
  assumes "k < MAX_RETRIES" and "\<forall>i<k. retried (post i)"
  shows "(post k = Response sc body (Inr d) \<and> (sc = 200 \<or> sc = 201) \<longrightarrow>
            call_n8n_action post act =
              (Succeeded act d (k + 1), retry_effects [0..<k] @ [Post k]))
       \<and> (post k = Response sc body js \<and> sc \<noteq> 200 \<and> sc \<noteq> 201 \<and> sc \<noteq> 429 \<and> sc < 500 \<longrightarrow>
            call_n8n_action post act =
              (ClientError act (''Client error: '' @ str_int sc) body (k + 1),
               retry_effects [0..<k] @ [Post k]))
       \<and> (retried (post k) \<and> k + 1 = MAX_RETRIES \<longrightarrow>
            call_n8n_action post act =
              (RetriesExceeded act ''Max retries exceeded''
                 (last_caught post None [0..<MAX_RETRIES]) MAX_RETRIES,
               retry_effects [0..<MAX_RETRIES]))
       \<and> retry_effects [k] = [Post k, Sleep (min (500 * 2 ^ k) 2000)]
       \<and> length (filter is_post (snd (call_n8n_action post act))) \<le> MAX_RETRIES"
proof -
  note at = call_n8n_action_at [OF assms, of act]
  have a: "post k = Response sc body (Inr d) \<and> (sc = 200 \<or> sc = 201) \<longrightarrow>
            call_n8n_action post act =
              (Succeeded act d (k + 1), retry_effects [0..<k] @ [Post k])"
    using at by auto
  have b: "post k = Response sc body js \<and> sc \<noteq> 200 \<and> sc \<noteq> 201 \<and> sc \<noteq> 429 \<and> sc < 500 \<longrightarrow>
            call_n8n_action post act =
              (ClientError act (''Client error: '' @ str_int sc) body (k + 1),
               retry_effects [0..<k] @ [Post k])"
    using at by auto
  have c: "retried (post k) \<and> k + 1 = MAX_RETRIES \<longrightarrow>
            call_n8n_action post act =
              (RetriesExceeded act ''Max retries exceeded''
                 (last_caught post None [0..<MAX_RETRIES]) MAX_RETRIES,
               retry_effects [0..<MAX_RETRIES])"
  proof (intro impI, elim conjE)
    assume r: "retried (post k)" and k: "k + 1 = MAX_RETRIES"
    have "retried (post i)" if "i < MAX_RETRIES" for i
    proof -
      from that k have "i < k \<or> i = k" by arith
      then show ?thesis using assms(2) r by blast
    qed
    then have "\<forall>i\<in>set [0..<MAX_RETRIES]. retried (post i)" by simp
    from attempt_loop_retried [OF this, of act None "[]" "[]"]
    show "call_n8n_action post act =
              (RetriesExceeded act ''Max retries exceeded''
                 (last_caught post None [0..<MAX_RETRIES]) MAX_RETRIES,
               retry_effects [0..<MAX_RETRIES])"
      by (simp add: call_n8n_action_def)
  qed
  have d: "retry_effects [k] = [Post k, Sleep (min (500 * 2 ^ k) 2000)]"
    by (simp add: retry_effects_def delay_ms_def BASE_DELAY_MS_def MAX_DELAY_MS_def)
  have e: "length (filter is_post (snd (call_n8n_action post act))) \<le> MAX_RETRIES"
    using attempt_loop_posts [of post act None "[]" "[0..<MAX_RETRIES]"]
    by (simp add: call_n8n_action_def)
  from a b c d e show ?thesis by blast
qed

text \<open>
  The policy at two gateways: 500, 500, then 200 (success with \<open>attempts = 3\<close>, after
  sleeps of 500 and 1000 ms); 404 on the first attempt (failure with \<open>attempts = 1\<close>, a
  single POST).
\<close>

theorem call_n8n_action_retry_policy_witness:
  "(2::nat) < MAX_RETRIES
   \<and> retried (Response 500 ''Internal Server Error'' (Inl ''no JSON''))
   \<and> call_n8n_action
        (\<lambda>i. if i < 2 then Response 500 ''Internal Server Error'' (Inl ''no JSON'')
             else Response 200 ''{}'' (Inr ''{}'')) ''book_appointment''
       = (Succeeded ''book_appointment'' ''{}'' 3,
          [Post 0, Sleep 500, Post 1, Sleep 1000, Post 2])
   \<and> call_n8n_action (\<lambda>i. Response 404 ''Not Found'' (Inl ''no JSON'')) ''send_sms''
       = (ClientError ''send_sms'' ''Client error: 404'' ''Not Found'' 1, [Post 0])"
proof -
  let ?g = "\<lambda>i::nat. if i < 2 then Response 500 ''Internal Server Error'' (Inl ''no JSON'')
                     else Response 200 ''{}'' (Inr ''{}'')"
  let ?h = "\<lambda>i::nat. Response 404 ''Not Found'' (Inl ''no JSON'')"
  have k2: "(2::nat) < MAX_RETRIES" and k0: "(0::nat) < MAX_RETRIES"
    by (simp_all add: MAX_RETRIES_def)
  have r2: "\<forall>i<2. retried (?g i)" by simp
  have r0: "\<forall>i<0. retried (?h i)" by simp
  have u2: "[0..<2] = [0, Suc 0]" by (simp add: upt_rec)
  have s404: "str_int 404 = ''404''" by code_simp
  have "call_n8n_action ?g ''book_appointment''
       = (Succeeded ''book_appointment'' ''{}'' 3,
          [Post 0, Sleep 500, Post 1, Sleep 1000, Post 2])"
    using call_n8n_action_retry_policy
            [OF k2 r2, where sc = 200 and body = "''{}''" and d = "''{}''"
               and act = "''book_appointment''"]
    by (simp add: u2 retry_effects_def delay_ms_def BASE_DELAY_MS_def MAX_DELAY_MS_def)
  moreover have "call_n8n_action ?h ''send_sms''
       = (ClientError ''send_sms'' ''Client error: 404'' ''Not Found'' 1, [Post 0])"
    using call_n8n_action_retry_policy
            [OF k0 r0, where sc = 404 and body = "''Not Found''" and js = "Inl ''no JSON''"
               and act = "''send_sms''"]
    by (simp add: retry_effects_def s404)
  ultimately show ?thesis using k2 by simp
qed

text \<open>
  Claim C1 at a gateway that answers the first POST with HTTP 204, a 2xx status. The
  dispatcher does not return success: only 200 and 201 pass its success test, and 204
  falls through to the last branch, which the source marks as the one for client errors
  (4xx except 429). The call comes back at once as the failure envelope
  \<open>Client error: 204\<close> with \<open>attempts = 1\<close>.
\<close>

theorem call_n8n_action_status_204:
  "call_n8n_action (\<lambda>i. Response 204 [] (Inl ''no JSON'')) ''send_email''
     = (ClientError ''send_email'' ''Client error: 204'' [] 1, [Post 0])
   \<and> \<not> success (fst (call_n8n_action (\<lambda>i. Response 204 [] (Inl ''no JSON'')) ''send_email''))"
proof -
  have "str_int 204 = ''204''" by code_simp
  then show ?thesis by (simp add: call_n8n_action_def MAX_RETRIES_def upt_rec)
qed

text \<open>
  Claim C2 at a gateway that answers every attempt with HTTP 500: the attempts are
  exhausted, the envelope says "Max retries exceeded" with \<open>attempts = 3\<close>, and its
  \<open>last_error\<close> is \<open>None\<close>: the 429 and 5xx branches never assign \<open>last_error\<close>, only
  the two \<open>except\<close> branches do.
\<close>

theorem call_n8n_action_persistent_500:
  "call_n8n_action (\<lambda>i. Response 500 ''Internal Server Error'' (Inl ''no JSON''))
      ''book_appointment''
     = (RetriesExceeded ''book_appointment'' ''Max retries exceeded'' None 3,
        [Post 0, Sleep 500, Post 1, Sleep 1000, Post 2, Sleep 2000])"
  by (simp add: call_n8n_action_def MAX_RETRIES_def upt_rec delay_ms_def BASE_DELAY_MS_def
        MAX_DELAY_MS_def)

section \<open>Verification of the conversation context\<close>

lemma starts_with_prefix: "starts_with p s \<longleftrightarrow> prefix p s"
  by (induction p s rule: starts_with.induct) auto

lemma str_in_sublist: "str_in kw s \<longleftrightarrow> sublist kw s"
  by (induction s) (auto simp: starts_with_prefix sublist_Cons_right)

lemma list_ex_str_in:
  "list_ex (\<lambda>kw. str_in kw s) kws \<longleftrightarrow> (\<exists>kw\<in>set kws. sublist kw s)"
  by (simp add: list_ex_iff str_in_sublist)

lemma message_level_1: "message_level (silence_message (Suc 0)) = Suc 0"
  by (simp add: message_level_def)

lemma message_level_2: "message_level (silence_message 2) = 2"
  by (simp add: message_level_def silence_message_def)

lemma message_level_3: "message_level (silence_message 3) = 3"
  by (simp add: message_level_def silence_message_def)

lemma silence_level_cases: "silence_level c now \<in> {0, Suc 0, 2, 3}"
  by (simp add: silence_level_def split: option.splits)

lemma message_level_silence_level:
  "0 < silence_level c now \<Longrightarrow>
   message_level (silence_message (silence_level c now)) = silence_level c now"
  using silence_level_cases [of c now] message_level_1 message_level_2 message_level_3
  by auto

lemma message_level_pos:
  "0 < message_level m \<Longrightarrow>
   m \<in> {silence_message 1, silence_message 2, silence_message 3}"
  unfolding message_level_def by (auto split: if_splits)

text \<open>
  One call: a message is returned exactly when the silence has reached a level above
  \<open>silence_count\<close>, and then \<open>silence_count\<close> jumps to that level.
\<close>

lemma get_silence_response_level:
  "get_silence_response c now =
     (if silence_count c < silence_level c now
      then (Some (silence_message (silence_level c now)),
            c\<lparr>silence_count := silence_level c now\<rparr>)
      else (None, c))"
proof (cases "last_user_speech_time c")
  case None
  then show ?thesis
    by (simp add: get_silence_response_def silence_level_def get_silence_duration_def)
next
  case (Some t)
  then have d: "get_silence_duration c now = Some (now - t)"
    by (simp add: get_silence_duration_def)
  consider "seconds 18 \<le> now - t" | "seconds 12 \<le> now - t" "\<not> seconds 18 \<le> now - t"
    | "seconds 6 \<le> now - t" "\<not> seconds 12 \<le> now - t" | "\<not> seconds 6 \<le> now - t"
    by (auto simp: seconds_def)
  then show ?thesis
  proof cases
    case 1
    then have "silence_level c now = 3" by (simp add: silence_level_def d)
    then show ?thesis using 1 by (simp add: get_silence_response_def d silence_message_def)
  next
    case 2
    then have "silence_level c now = 2" by (simp add: silence_level_def d)
    then show ?thesis using 2 by (simp add: get_silence_response_def d silence_message_def)
  next
    case 3
    then have n12: "\<not> seconds 12 \<le> now - t" and n18: "\<not> seconds 18 \<le> now - t"
      by (simp_all add: seconds_def)
    with 3 have "silence_level c now = 1" by (simp add: silence_level_def d)
    then show ?thesis using 3 n12 n18
      by (simp add: get_silence_response_def d silence_message_def)
  next
    case 4
    then have n6: "\<not> seconds 6 \<le> now - t" and n12: "\<not> seconds 12 \<le> now - t"
      and n18: "\<not> seconds 18 \<le> now - t"
      by (simp_all add: seconds_def)
    then have "silence_level c now = 0" by (simp add: silence_level_def d)
    then show ?thesis using n6 n12 n18 by (simp add: get_silence_response_def d)
  qed
qed

lemma fired_simps:
  "fired [] = []" "fired (None # rs) = fired rs" "fired (Some m # rs) = m # fired rs"
  by (simp_all add: fired_def)

lemma fst_run_calls_silence:
  "fst (run_calls c (GetSilenceResponse now # calls)) =
     fst (get_silence_response c now) # fst (run_calls (snd (get_silence_response c now)) calls)"
  by (simp add: split_def Let_def)

lemma add_turn_other:
  "r \<noteq> ''user'' \<Longrightarrow> silence_count (add_turn c r txt t1 t2) = silence_count c"
  by (simp add: add_turn_def Let_def)

lemma add_turn_user:
  "silence_count (add_turn c ''user'' txt t1 t2) = 0"
  "last_user_speech_time (add_turn c ''user'' txt t1 t2) = Some t2"
  "user_sentiment (add_turn c ''user'' txt t1 t2) = detect_sentiment txt"
  by (simp_all add: add_turn_def Let_def)

text \<open>
  Without a user turn the levels of the messages returned, read from the first call to
  the last, climb strictly, starting above the level the context had.
\<close>

lemma run_calls_escalation:
  "\<forall>e\<in>set calls. \<not> is_user_turn e \<Longrightarrow>
   sorted_wrt (<) (silence_count c # map message_level (fired (fst (run_calls c calls))))"
proof (induction calls arbitrary: c)
  case Nil
  then show ?case by (simp add: fired_simps)
next
  case (Cons e calls)
  then have rest: "\<forall>e\<in>set calls. \<not> is_user_turn e" by simp
  note IH = Cons.IH [OF rest]
  show ?case
  proof (cases e)
    case (GetSilenceResponse now)
    show ?thesis
    proof (cases "silence_count c < silence_level c now")
      case True
      let ?c1 = "c\<lparr>silence_count := silence_level c now\<rparr>"
      have ml: "message_level (silence_message (silence_level c now)) = silence_level c now"
        using True by (intro message_level_silence_level) simp
      have "sorted_wrt (<)
              (silence_level c now # map message_level (fired (fst (run_calls ?c1 calls))))"
        using IH [of ?c1] by simp
      then have "sorted_wrt (<)
              (silence_count c # silence_level c now
                 # map message_level (fired (fst (run_calls ?c1 calls))))"
        using True by auto
      then show ?thesis
        unfolding GetSilenceResponse fst_run_calls_silence get_silence_response_level
        using True ml by (simp add: fired_simps)
    next
      case False
      then show ?thesis
        unfolding GetSilenceResponse fst_run_calls_silence get_silence_response_level
        using IH [of c] by (simp add: fired_simps)
    qed
  next
    case (AddTurn r tx t1 t2)
    with Cons.prems have "r \<noteq> ''user''" by simp
    then show ?thesis using IH [of "add_turn c r tx t1 t2"] AddTurn
      by (simp add: add_turn_other)
  next
    case IncrementRetry
    then show ?thesis using IH [of "increment_retry c"] by (simp add: increment_retry_def)
  next
    case ResetRetry
    then show ?thesis using IH [of "reset_retry c"] by (simp add: reset_retry_def)
  qed
qed

text \<open>
  Claim C3. Take any context and any sequence of calls on it without a user turn
  (\<open>get_silence_response\<close> at any clock readings, turns of other roles, retry counters).
  \<^item> The messages returned have strictly climbing levels (6 s, then 12 s, then 18 s), all
    above the level the context started with: a lower threshold never fires after a
    higher one.
  \<^item> No message is returned twice, and every message is one of the three.
  \<^item> A single call returns a message exactly when the silence has crossed a threshold
    above \<open>silence_count\<close>; otherwise it returns \<open>None\<close> and leaves the context as it is.
  \<^item> A user turn sets \<open>silence_count\<close> to 0, and a silence of 6 s after it fires again.
\<close>

theorem silence_escalation_one_shot:
  assumes "\<forall>e\<in>set calls. \<not> is_user_turn e"
  shows "sorted_wrt (<)
           (silence_count c # map message_level (fired (fst (run_calls c calls))))
       \<and> distinct (fired (fst (run_calls c calls)))
       \<and> set (fired (fst (run_calls c calls)))
            \<subseteq> {silence_message 1, silence_message 2, silence_message 3}
       \<and> get_silence_response c now =
           (if silence_count c < silence_level c now
            then (Some (silence_message (silence_level c now)),
                  c\<lparr>silence_count := silence_level c now\<rparr>)
            else (None, c))
       \<and> silence_count (add_turn c ''user'' msg now_turn now_speech) = 0
       \<and> (seconds 6 \<le> now - now_speech \<longrightarrow>
            fst (get_silence_response (add_turn c ''user'' msg now_turn now_speech) now)
              \<noteq> None)"
proof -
  let ?ms = "fired (fst (run_calls c calls))"
  have s: "sorted_wrt (<) (silence_count c # map message_level ?ms)"
    using assms by (rule run_calls_escalation)
  then have "sorted_wrt (<) (map message_level ?ms)" by simp
  then have "distinct (map message_level ?ms)"
    by (simp add: strict_sorted_iff)
  then have d: "distinct ?ms" by (simp add: distinct_map)
  have "\<forall>l\<in>set (map message_level ?ms). silence_count c < l" using s by simp
  then have "\<forall>m\<in>set ?ms. 0 < message_level m" by auto
  then have m: "set ?ms \<subseteq> {silence_message 1, silence_message 2, silence_message 3}"
    using message_level_pos by blast
  have r: "seconds 6 \<le> now - now_speech \<longrightarrow>
            fst (get_silence_response (add_turn c ''user'' msg now_turn now_speech) now)
              \<noteq> None"
  proof
    assume six: "seconds 6 \<le> now - now_speech"
    let ?c = "add_turn c ''user'' msg now_turn now_speech"
    have "0 < silence_level ?c now"
      using six by (simp add: silence_level_def get_silence_duration_def add_turn_user)
    then show "fst (get_silence_response ?c now) \<noteq> None"
      by (simp add: get_silence_response_level add_turn_user)
  qed
  show ?thesis
    using s d m r get_silence_response_level [of c now] add_turn_user(1) [of c msg]
    by blast
qed

text \<open>
  The watchdog's scenario: the user speaks at second 0; polls at 2, 7, 8, 13, 14, 19 and
  20 seconds, with an assistant turn in between, return the three messages once each, in
  order, and \<open>None\<close> otherwise.
\<close>

theorem silence_escalation_one_shot_witness:
  "fst (run_calls (add_turn (new_context ''CA1'' 50 0) ''user'' ''hello'' 0 0)
          [GetSilenceResponse (seconds 2), GetSilenceResponse (seconds 7),
           GetSilenceResponse (seconds 8), AddTurn ''assistant'' ''hi'' (seconds 9) (seconds 9),
           GetSilenceResponse (seconds 13), GetSilenceResponse (seconds 14),
           GetSilenceResponse (seconds 19), GetSilenceResponse (seconds 20)])
     = [None, Some (silence_message 1), None, Some (silence_message 2), None,
        Some (silence_message 3), None]
   \<and> distinct (fired (fst (run_calls (add_turn (new_context ''CA1'' 50 0) ''user'' ''hello'' 0 0)
          [GetSilenceResponse (seconds 2), GetSilenceResponse (seconds 7),
           GetSilenceResponse (seconds 8), AddTurn ''assistant'' ''hi'' (seconds 9) (seconds 9),
           GetSilenceResponse (seconds 13), GetSilenceResponse (seconds 14),
           GetSilenceResponse (seconds 19), GetSilenceResponse (seconds 20)])))"
proof -
  let ?c = "add_turn (new_context ''CA1'' 50 0) ''user'' ''hello'' 0 0"
  let ?calls = "[GetSilenceResponse (seconds 2), GetSilenceResponse (seconds 7),
           GetSilenceResponse (seconds 8), AddTurn ''assistant'' ''hi'' (seconds 9) (seconds 9),
           GetSilenceResponse (seconds 13), GetSilenceResponse (seconds 14),
           GetSilenceResponse (seconds 19), GetSilenceResponse (seconds 20)]"
  have h: "\<forall>e\<in>set ?calls. \<not> is_user_turn e" by simp
  have "fst (run_calls ?c ?calls)
     = [None, Some (silence_message 1), None, Some (silence_message 2), None,
        Some (silence_message 3), None]"
    by code_simp
  moreover have "distinct (fired (fst (run_calls ?c ?calls)))"
    by (rule silence_escalation_one_shot [OF h, THEN conjunct2, THEN conjunct1])
  ultimately show ?thesis by (intro conjI)
qed

text \<open>
  Claim C4. The sentiment is a function of the text alone: it is \<open>frustrated\<close> when the
  lower-cased text contains a frustration keyword, whatever else it contains; otherwise
  \<open>confused\<close> when it contains a confusion keyword; otherwise \<open>satisfied\<close> when it
  contains a satisfaction keyword; otherwise \<open>neutral\<close>. The sentiment a user turn leaves
  in the context is that value, whatever the context was and whenever the turn arrives.
\<close>

theorem detect_sentiment_priority:
  "detect_sentiment msg =
     (if \<exists>kw\<in>set frustration_keywords. sublist kw (lower msg) then ''frustrated''
      else if \<exists>kw\<in>set confusion_keywords. sublist kw (lower msg) then ''confused''
      else if \<exists>kw\<in>set satisfaction_keywords. sublist kw (lower msg) then ''satisfied''
      else ''neutral'')
   \<and> user_sentiment (add_turn c ''user'' msg now_turn now_speech) = detect_sentiment msg"
proof
  show "detect_sentiment msg =
     (if \<exists>kw\<in>set frustration_keywords. sublist kw (lower msg) then ''frustrated''
      else if \<exists>kw\<in>set confusion_keywords. sublist kw (lower msg) then ''confused''
      else if \<exists>kw\<in>set satisfaction_keywords. sublist kw (lower msg) then ''satisfied''
      else ''neutral'')"
    unfolding detect_sentiment_def Let_def list_ex_str_in by (rule refl)
  show "user_sentiment (add_turn c ''user'' msg now_turn now_speech) = detect_sentiment msg"
    by (rule add_turn_user(3))
qed

text \<open>Texts with keywords of several categories, and the first test case of the repository.\<close>

theorem detect_sentiment_priority_witness:
  "detect_sentiment ''This is stupid. What? Thanks anyway'' = ''frustrated''
   \<and> detect_sentiment ''WHAT? Thanks anyway'' = ''confused''
   \<and> detect_sentiment ''Thanks anyway'' = ''satisfied''
   \<and> detect_sentiment ''I want to book an appointment'' = ''neutral''
   \<and> user_sentiment (add_turn (new_context ''CA1'' 50 0) ''user'' ''WHAT? Thanks anyway'' 1 2)
       = ''confused''"
proof -
  have e: "detect_sentiment ''This is stupid. What? Thanks anyway'' = ''frustrated''"
    "detect_sentiment ''WHAT? Thanks anyway'' = ''confused''"
    "detect_sentiment ''Thanks anyway'' = ''satisfied''"
    "detect_sentiment ''I want to book an appointment'' = ''neutral''"
    by code_simp+
  then show ?thesis
    using detect_sentiment_priority
            [of "''WHAT? Thanks anyway''" "new_context ''CA1'' 50 0" 1 2]
    by simp
qed

section \<open>Verification of the session registry\<close>

lemma length_dict_set: "length (dict_set k v d) \<le> Suc (length d)"
  by (induction d) auto

lemma length_dict_set_present:
  "map_of d k = Some v0 \<Longrightarrow> length (dict_set k v d) = length d"
  by (induction d) (auto split: if_splits)

lemma map_of_dict_set: "map_of (dict_set k v d) = (map_of d)(k \<mapsto> v)"
  by (induction d) (auto simp: fun_eq_iff)

lemma length_dict_del: "length (dict_del k d) \<le> length d"
  by (simp add: dict_del_def)

lemma evict_expired_fields [simp]:
  "ttl_seconds (evict_expired d now) = ttl_seconds d"
  "max_size (evict_expired d now) = max_size d"
  by (simp_all add: evict_expired_def)

lemma length_evict_expired: "length (odict (evict_expired d now)) \<le> length (odict d)"
  by (simp add: evict_expired_def)

lemma ttl_set_fields [simp]:
  "ttl_seconds (snd (ttl_set d key val n1 n2)) = ttl_seconds d"
  "max_size (snd (ttl_set d key val n1 n2)) = max_size d"
  by (simp_all add: ttl_set_def Let_def split: list.splits)

lemma ttl_set_bounded:
  assumes "0 < max_size d" and "int (length (odict d)) \<le> max_size d"
  shows "int (length (odict (snd (ttl_set d key val n1 n2)))) \<le> max_size d"
proof -
  let ?live = "odict (evict_expired d n1)"
  have l: "int (length ?live) \<le> max_size d"
    using length_evict_expired [of d n1] assms(2) by linarith
  show ?thesis
  proof (cases "max_size d \<le> int (length ?live)")
    case True
    with assms(1) obtain oldest rest where live: "?live = oldest # rest"
      by (cases ?live) auto
    have "length (dict_set key (n2, val) rest) \<le> Suc (length rest)"
      by (rule length_dict_set)
    with l live True show ?thesis by (simp add: ttl_set_def Let_def)
  next
    case False
    have "length (dict_set key (n2, val) ?live) \<le> Suc (length ?live)"
      by (rule length_dict_set)
    with False show ?thesis by (simp add: ttl_set_def Let_def)
  qed
qed

lemma registry_step_fields [simp]:
  "ttl_seconds (registry_step d c) = ttl_seconds d"
  "max_size (registry_step d c) = max_size d"
  by (cases c; simp add: ttl_get_def ttl_update_def ttl_delete_def ttl_contains_def
        ttl_values_def ttl_len_def Let_def split: option.splits json.splits)+

lemma registry_step_bounded:
  assumes "0 < max_size d" and "int (length (odict d)) \<le> max_size d"
  shows "int (length (odict (registry_step d c))) \<le> max_size d"
proof (cases c)
  case (Set key val n1 n2)
  then show ?thesis using ttl_set_bounded [OF assms] by simp
next
  case (Get key dflt now)
  then show ?thesis using assms(2) length_dict_del [of key "odict d"]
    by (auto simp: ttl_get_def split: option.splits)
next
  case (Update key updates now)
  then show ?thesis using assms(2)
    by (auto simp: ttl_update_def length_dict_set_present split: option.splits json.splits)
next
  case (Delete key)
  then show ?thesis using assms(2) length_dict_del [of key "odict d"]
    by (simp add: ttl_delete_def)
next
  case (Contains key now)
  then show ?thesis using assms(2) length_dict_del [of key "odict d"]
    by (auto simp: ttl_contains_def split: option.splits)
next
  case (Values now)
  then show ?thesis using assms(2) length_evict_expired [of d now]
    by (simp add: ttl_values_def Let_def)
next
  case (Len now)
  then show ?thesis using assms(2) length_evict_expired [of d now]
    by (simp add: ttl_len_def Let_def)
qed

lemma run_registry_bounded:
  "0 < max_size d \<Longrightarrow> int (length (odict d)) \<le> max_size d \<Longrightarrow>
   int (length (odict (run_registry d calls))) \<le> max_size d
   \<and> max_size (run_registry d calls) = max_size d"
proof (induction calls arbitrary: d)
  case Nil
  then show ?case by (simp add: run_registry_def)
next
  case (Cons c calls)
  have "int (length (odict (registry_step d c))) \<le> max_size (registry_step d c)"
    using registry_step_bounded [OF Cons.prems] by simp
  moreover have "0 < max_size (registry_step d c)" using Cons.prems(1) by simp
  ultimately show ?case
    using Cons.IH [of "registry_step d c"] by (simp add: run_registry_def)
qed

text \<open>
  Claim C5. Take a registry with a positive capacity that holds at most \<open>max_size\<close>
  entries (a new one does), and run any sequence of calls on it, at any clock readings:
  \<open>set\<close> with any number of distinct keys, and the other methods too. Then \<open>len()\<close>
  is at most \<open>max_size\<close>. When \<open>set\<close> finds the registry at capacity after the sweep of
  expired entries, there is a first live entry in insertion order, and the registry after
  the call is the live entries without that first one, with the new entry stored.
\<close>

theorem registry_never_exceeds_max_size:
  assumes "0 < max_size d" and "int (length (odict d)) \<le> max_size d"
  shows "int (fst (ttl_len (run_registry d calls) now)) \<le> max_size d
       \<and> (max_size d \<le> int (length (odict (evict_expired d now_sweep))) \<longrightarrow>
            odict (evict_expired d now_sweep) \<noteq> []
            \<and> ttl_set d key val now_sweep now_stamp =
                (None, d\<lparr>odict := dict_set key (now_stamp, val)
                                    (tl (odict (evict_expired d now_sweep)))\<rparr>))
       \<and> (\<forall>(k, ts, v) \<in> set (odict (evict_expired d now_sweep)).
             now_sweep - ts < seconds (ttl_seconds d))"
proof -
  let ?d = "run_registry d calls"
  have "int (length (odict ?d)) \<le> max_size d"
    using run_registry_bounded [OF assms] by simp
  moreover have "length (odict (evict_expired ?d now)) \<le> length (odict ?d)"
    by (rule length_evict_expired)
  ultimately have a: "int (fst (ttl_len ?d now)) \<le> max_size d"
    by (simp add: ttl_len_def Let_def)
  let ?live = "odict (evict_expired d now_sweep)"
  have b: "max_size d \<le> int (length ?live) \<longrightarrow>
            ?live \<noteq> []
            \<and> ttl_set d key val now_sweep now_stamp =
                (None, d\<lparr>odict := dict_set key (now_stamp, val) (tl ?live)\<rparr>)"
  proof
    assume cap: "max_size d \<le> int (length ?live)"
    with assms(1) obtain oldest rest where live: "?live = oldest # rest"
      by (cases ?live) auto
    have "ttl_set d key val now_sweep now_stamp =
            (None, (evict_expired d now_sweep)\<lparr>odict := dict_set key (now_stamp, val) rest\<rparr>)"
      using cap live by (simp add: ttl_set_def Let_def)
    moreover have "(evict_expired d now_sweep)\<lparr>odict := dict_set key (now_stamp, val) rest\<rparr>
            = d\<lparr>odict := dict_set key (now_stamp, val) rest\<rparr>"
      by (simp add: evict_expired_def)
    ultimately show "?live \<noteq> []
            \<and> ttl_set d key val now_sweep now_stamp =
                (None, d\<lparr>odict := dict_set key (now_stamp, val) (tl ?live)\<rparr>)"
      using live by simp
  qed
  have c: "\<forall>(k, ts, v) \<in> set ?live. now_sweep - ts < seconds (ttl_seconds d)"
    by (auto simp: evict_expired_def)
  from a b c show ?thesis by blast
qed

text \<open>
  A registry of capacity 2 and three distinct keys: the third \<open>set\<close> evicts the first
  key, and \<open>len()\<close> is 2.
\<close>

theorem registry_never_exceeds_max_size_witness:
  "fst (ttl_len (run_registry (new_TTLDict 3600 2)
          [Set ''CA1'' JNull 0 0, Set ''CA2'' JNull 1 1, Set ''CA3'' JNull 2 2]) 3) = 2
   \<and> odict (run_registry (new_TTLDict 3600 2)
          [Set ''CA1'' JNull 0 0, Set ''CA2'' JNull 1 1, Set ''CA3'' JNull 2 2])
       = [(''CA2'', 1, JNull), (''CA3'', 2, JNull)]
   \<and> int (fst (ttl_len (run_registry (new_TTLDict 3600 2)
          [Set ''CA1'' JNull 0 0, Set ''CA2'' JNull 1 1, Set ''CA3'' JNull 2 2]) 3))
       \<le> max_size (new_TTLDict 3600 2)"
proof -
  let ?d = "new_TTLDict 3600 2"
  let ?calls = "[Set ''CA1'' JNull 0 0, Set ''CA2'' JNull 1 1, Set ''CA3'' JNull 2 2]"
  have p: "0 < max_size ?d" and q: "int (length (odict ?d)) \<le> max_size ?d"
    by (simp_all add: new_TTLDict_def)
  have "fst (ttl_len (run_registry ?d ?calls) 3) = 2" by code_simp
  moreover have "odict (run_registry ?d ?calls) = [(''CA2'', 1, JNull), (''CA3'', 2, JNull)]"
    by code_simp
  moreover have "int (fst (ttl_len (run_registry ?d ?calls) 3)) \<le> max_size ?d"
    by (rule registry_never_exceeds_max_size [OF p q, THEN conjunct1])
  ultimately show ?thesis by (intro conjI)
qed
lemma map_of_key_stamp:
  "map_of (map (\<lambda>(k, ts, val). (k, ts)) xs) k = map_option fst (map_of xs k)"
  by (induction xs) auto

lemma map_of_stamps: "map_of (stamps d) k = map_option fst (map_of (odict d) k)"
  by (simp add: stamps_def map_of_key_stamp)

lemma dict_set_same_stamp:
  "map_of xs k = Some (ts, v) \<Longrightarrow>
   map (\<lambda>(k, ts, val). (k, ts)) (dict_set k (ts, v') xs) = map (\<lambda>(k, ts, val). (k, ts)) xs"
  by (induction xs) (auto split: if_splits)

text \<open>An \<open>update\<close> changes no key and no timestamp of the registry, whatever it returns.\<close>

lemma ttl_update_stamps: "stamps (snd (ttl_update d key updates now)) = stamps d"
  by (auto simp: ttl_update_def stamps_def dict_set_same_stamp
        split: option.splits json.splits)

lemma ttl_update_ttl: "ttl_seconds (snd (ttl_update d key updates now)) = ttl_seconds d"
  by (auto simp: ttl_update_def split: option.splits json.splits)

lemma run_updates_stamps:
  "\<forall>c\<in>set calls. is_update c \<Longrightarrow>
   stamps (run_registry d calls) = stamps d
   \<and> ttl_seconds (run_registry d calls) = ttl_seconds d"
proof (induction calls arbitrary: d)
  case Nil
  then show ?case by (simp add: run_registry_def)
next
  case (Cons c calls)
  then obtain key updates now where c: "c = Update key updates now"
    by (cases c) auto
  from Cons.prems have "\<forall>c\<in>set calls. is_update c" by simp
  from Cons.IH [OF this, of "registry_step d c"] show ?case
    by (simp add: run_registry_def c ttl_update_stamps ttl_update_ttl)
qed

lemma ttl_contains_stamps:
  "fst (ttl_contains d key now) \<longleftrightarrow>
     (\<exists>ts. map_of (stamps d) key = Some ts \<and> now - ts < seconds (ttl_seconds d))"
  by (auto simp: ttl_contains_def map_of_stamps split: option.splits)

lemma ttl_set_stamp:
  assumes "ttl_set d key val now_sweep now_stamp = (None, d1)"
  shows "map_of (odict d1) key = Some (now_stamp, val)" and "ttl_seconds d1 = ttl_seconds d"
proof -
  from assms have "d1 = snd (ttl_set d key val now_sweep now_stamp)" by simp
  then show "ttl_seconds d1 = ttl_seconds d" by simp
  from assms show "map_of (odict d1) key = Some (now_stamp, val)"
    by (auto simp: ttl_set_def Let_def map_of_dict_set split: if_splits list.splits)
qed

text \<open>
  What \<open>val.update(updates)\<close> leaves under each field: the value given in \<open>updates\<close>
  (the last one, should a field be given twice), or else the value the field had.
\<close>

lemma map_of_dict_update:
  "map_of (dict_update items updates) f =
     (case map_of (rev updates) f of Some v \<Rightarrow> Some v | None \<Rightarrow> map_of items f)"
proof (induction updates rule: rev_induct)
  case Nil
  show ?case by (simp add: dict_update_def)
next
  case (snoc u updates)
  obtain k v where u: "u = (k, v)" by (cases u)
  have "dict_update items (updates @ [u]) = dict_set k v (dict_update items updates)"
    by (simp add: dict_update_def u)
  then show ?case using snoc by (simp add: map_of_dict_set u)
qed

text \<open>
  Claim C10. Let \<open>set\<close> store a key with the timestamp \<open>now_stamp\<close>, and let any sequence
  of \<open>update\<close> calls follow, on any keys, with any fields, at any clock readings. Then
  every key of the registry has the timestamp it had after the \<open>set\<close>, and the key is in
  the registry (\<open>key in registry\<close>) at a later time \<open>now\<close> exactly when
  \<open>now - now_stamp < ttl\<close>. As for the merge: an \<open>update\<close> of a key that holds a live
  \<open>dict\<close> value returns \<open>True\<close> and leaves under the key, with the timestamp it had, the
  \<open>dict\<close> in which every given field has its new value and every other field the value
  it had; the other keys keep their entries. An \<open>update\<close> that returns \<open>True\<close> has found
  such a value, and one that returns \<open>False\<close> changes nothing.
\<close>

theorem update_preserves_timestamp:
  assumes "ttl_set d key val now_sweep now_stamp = (None, d1)"
    and "\<forall>c\<in>set calls. is_update c"
  shows "stamps (run_registry d1 calls) = stamps d1
       \<and> map_of (stamps (run_registry d1 calls)) key = Some now_stamp
       \<and> (fst (ttl_contains (run_registry d1 calls) key now)
            \<longleftrightarrow> now - now_stamp < seconds (ttl_seconds d))
       \<and> (fst (ttl_update d1 k updates t) \<longrightarrow>
            (\<exists>ts items. map_of (odict d1) k = Some (ts, JObj items)
               \<and> t - ts < seconds (ttl_seconds d)
               \<and> map_of (odict (snd (ttl_update d1 k updates t))) k
                   = Some (ts, JObj (dict_update items updates))))
       \<and> (map_of (odict d1) k = Some (ts0, JObj items0) \<and> t - ts0 < seconds (ttl_seconds d) \<longrightarrow>
            fst (ttl_update d1 k updates t)
            \<and> (\<exists>merged.
                  map_of (odict (snd (ttl_update d1 k updates t))) k = Some (ts0, JObj merged)
                  \<and> (\<forall>f. map_of merged f =
                        (case map_of (rev updates) f of
                           Some v \<Rightarrow> Some v
                         | None \<Rightarrow> map_of items0 f)))
            \<and> (\<forall>k'. k' \<noteq> k \<longrightarrow>
                  map_of (odict (snd (ttl_update d1 k updates t))) k' = map_of (odict d1) k'))
       \<and> (\<not> fst (ttl_update d1 k updates t) \<longrightarrow> snd (ttl_update d1 k updates t) = d1)"
proof -
  let ?d = "run_registry d1 calls"
  have s: "stamps ?d = stamps d1" and t: "ttl_seconds ?d = ttl_seconds d1"
    using run_updates_stamps [OF assms(2), of d1] by simp_all
  have k: "map_of (stamps d1) key = Some now_stamp"
    using ttl_set_stamp(1) [OF assms(1)] by (simp add: map_of_stamps)
  have t1: "ttl_seconds d1 = ttl_seconds d" by (rule ttl_set_stamp(2) [OF assms(1)])
  have c: "fst (ttl_contains ?d key now) \<longleftrightarrow> now - now_stamp < seconds (ttl_seconds d)"
    by (simp add: ttl_contains_stamps s k t t1)
  have u: "fst (ttl_update d1 k updates t) \<longrightarrow>
            (\<exists>ts items. map_of (odict d1) k = Some (ts, JObj items)
               \<and> t - ts < seconds (ttl_seconds d)
               \<and> map_of (odict (snd (ttl_update d1 k updates t))) k
                   = Some (ts, JObj (dict_update items updates)))"
    by (auto simp: ttl_update_def map_of_dict_set t1 split: option.splits json.splits)
  have m: "map_of (odict d1) k = Some (ts0, JObj items0) \<and> t - ts0 < seconds (ttl_seconds d) \<longrightarrow>
            fst (ttl_update d1 k updates t)
            \<and> (\<exists>merged.
                  map_of (odict (snd (ttl_update d1 k updates t))) k = Some (ts0, JObj merged)
                  \<and> (\<forall>f. map_of merged f =
                        (case map_of (rev updates) f of
                           Some v \<Rightarrow> Some v
                         | None \<Rightarrow> map_of items0 f)))
            \<and> (\<forall>k'. k' \<noteq> k \<longrightarrow>
                  map_of (odict (snd (ttl_update d1 k updates t))) k' = map_of (odict d1) k')"
  proof (intro impI, elim conjE)
    assume e: "map_of (odict d1) k = Some (ts0, JObj items0)"
      and l: "t - ts0 < seconds (ttl_seconds d)"
    have r: "ttl_update d1 k updates t =
               (True, d1\<lparr>odict := dict_set k (ts0, JObj (dict_update items0 updates))
                                    (odict d1)\<rparr>)"
      using e l by (simp add: ttl_update_def t1)
    have "map_of (odict (snd (ttl_update d1 k updates t))) k
            = Some (ts0, JObj (dict_update items0 updates))"
      by (simp add: r map_of_dict_set)
    moreover have "\<forall>f. map_of (dict_update items0 updates) f =
                        (case map_of (rev updates) f of
                           Some v \<Rightarrow> Some v
                         | None \<Rightarrow> map_of items0 f)"
      by (simp add: map_of_dict_update)
    ultimately have "\<exists>merged.
                  map_of (odict (snd (ttl_update d1 k updates t))) k = Some (ts0, JObj merged)
                  \<and> (\<forall>f. map_of merged f =
                        (case map_of (rev updates) f of
                           Some v \<Rightarrow> Some v
                         | None \<Rightarrow> map_of items0 f))"
      by blast
    moreover have "\<forall>k'. k' \<noteq> k \<longrightarrow>
                  map_of (odict (snd (ttl_update d1 k updates t))) k' = map_of (odict d1) k'"
      by (simp add: r map_of_dict_set)
    moreover have "fst (ttl_update d1 k updates t)" by (simp add: r)
    ultimately show "fst (ttl_update d1 k updates t)
            \<and> (\<exists>merged.
                  map_of (odict (snd (ttl_update d1 k updates t))) k = Some (ts0, JObj merged)
                  \<and> (\<forall>f. map_of merged f =
                        (case map_of (rev updates) f of
                           Some v \<Rightarrow> Some v
                         | None \<Rightarrow> map_of items0 f)))
            \<and> (\<forall>k'. k' \<noteq> k \<longrightarrow>
                  map_of (odict (snd (ttl_update d1 k updates t))) k' = map_of (odict d1) k')"
      by (intro conjI)
  qed
  have n: "\<not> fst (ttl_update d1 k updates t) \<longrightarrow> snd (ttl_update d1 k updates t) = d1"
    by (auto simp: ttl_update_def split: option.splits json.splits)
  have k2: "map_of (stamps ?d) key = Some now_stamp" using s k by simp
  from s k2 c u m n show ?thesis by (intro conjI)
qed

text \<open>
  A call stored at second 0 with a time to live of 3600 s and updated at second 3599:
  the update returns \<open>True\<close>, overwrites \<open>status\<close>, keeps \<open>from\<close>, adds \<open>end_time\<close>, and
  leaves the timestamp 0. The call is in the registry one microsecond before second 3600
  and gone at second 3600.
\<close>

theorem update_preserves_timestamp_witness:
  "ttl_set (new_TTLDict 3600 1000) ''CA1''
       (JObj [(''status'', JStr ''initiated''), (''from'', JStr ''+15550100'')]) 0 0
     = (None, \<lparr>odict = [(''CA1'', 0, JObj [(''status'', JStr ''initiated''),
                                               (''from'', JStr ''+15550100'')])],
               ttl_seconds = 3600, max_size = 1000\<rparr>)
   \<and> ttl_update
        \<lparr>odict = [(''CA1'', 0, JObj [(''status'', JStr ''initiated''),
                                       (''from'', JStr ''+15550100'')])],
         ttl_seconds = 3600, max_size = 1000\<rparr>
        ''CA1'' [(''status'', JStr ''completed''), (''end_time'', JStr ''00:59:59'')]
        (seconds 3599)
     = (True,
        \<lparr>odict = [(''CA1'', 0, JObj [(''status'', JStr ''completed''),
                                       (''from'', JStr ''+15550100''),
                                       (''end_time'', JStr ''00:59:59'')])],
         ttl_seconds = 3600, max_size = 1000\<rparr>)
   \<and> fst (ttl_contains
        (run_registry
           \<lparr>odict = [(''CA1'', 0, JObj [(''status'', JStr ''initiated''),
                                          (''from'', JStr ''+15550100'')])],
            ttl_seconds = 3600, max_size = 1000\<rparr>
           [Update ''CA1'' [(''status'', JStr ''completed''), (''end_time'', JStr ''00:59:59'')]
              (seconds 3599)])
        ''CA1'' (seconds 3600 - 1))
   \<and> \<not> fst (ttl_contains
        (run_registry
           \<lparr>odict = [(''CA1'', 0, JObj [(''status'', JStr ''initiated''),
                                          (''from'', JStr ''+15550100'')])],
            ttl_seconds = 3600, max_size = 1000\<rparr>
           [Update ''CA1'' [(''status'', JStr ''completed''), (''end_time'', JStr ''00:59:59'')]
              (seconds 3599)])
        ''CA1'' (seconds 3600))"
proof -
  let ?v = "JObj [(''status'', JStr ''initiated''), (''from'', JStr ''+15550100'')]"
  let ?d1 = "\<lparr>odict = [(''CA1'', 0, ?v)], ttl_seconds = 3600, max_size = 1000\<rparr>"
  let ?ups = "[(''status'', JStr ''completed''), (''end_time'', JStr ''00:59:59'')]"
  let ?calls = "[Update ''CA1'' ?ups (seconds 3599)]"
  have st: "ttl_set (new_TTLDict 3600 1000) ''CA1'' ?v 0 0 = (None, ?d1)"
    by (simp add: ttl_set_def new_TTLDict_def evict_expired_def)
  have up: "\<forall>c\<in>set ?calls. is_update c" by simp
  have u: "ttl_update ?d1 ''CA1'' ?ups (seconds 3599)
     = (True,
        \<lparr>odict = [(''CA1'', 0, JObj [(''status'', JStr ''completed''),
                                       (''from'', JStr ''+15550100''),
                                       (''end_time'', JStr ''00:59:59'')])],
         ttl_seconds = 3600, max_size = 1000\<rparr>)"
    by (simp add: ttl_update_def dict_update_def seconds_def)
  note inst =
    update_preserves_timestamp [OF st up, THEN conjunct2, THEN conjunct2, THEN conjunct1]
  have a: "fst (ttl_contains (run_registry ?d1 ?calls) ''CA1'' (seconds 3600 - 1))"
    using inst [of "seconds 3600 - 1"] by (simp add: new_TTLDict_def seconds_def)
  have b: "\<not> fst (ttl_contains (run_registry ?d1 ?calls) ''CA1'' (seconds 3600))"
    using inst [of "seconds 3600"] by (simp add: new_TTLDict_def seconds_def)
  from st u a b show ?thesis by (intro conjI)
qed

section \<open>Verification of the output sanitizer\<close>

lemma str_replace_delete_char: "str_replace [c] [] s = filter (\<lambda>x. x \<noteq> c) s"
proof (induction s)
  case Nil
  then show ?case by (simp add: str_replace.simps)
next
  case (Cons x xs)
  then show ?case by (simp add: str_replace.simps [of "[c]" "[]" "x # xs"])
qed

lemma set_strip: "set (strip s) \<subseteq> set s"
proof -
  have "set (dropWhile is_space (rev (dropWhile is_space s))) \<subseteq> set (rev (dropWhile is_space s))"
    by (meson set_dropWhileD subsetI)
  moreover have "set (dropWhile is_space s) \<subseteq> set s"
    by (meson set_dropWhileD subsetI)
  ultimately show ?thesis by (auto simp: strip_def)
qed

text \<open>A substitution adds only characters of the replacement texts.\<close>

lemma set_sub_from:
  "(\<And>gs. set (repl gs) \<subseteq> R) \<Longrightarrow> set (sub_from rx repl prev s) \<subseteq> set s \<union> R"
proof (induction rx repl prev s rule: sub_from.induct)
  case (1 rx repl prev s)
  note r = "1.prems"
  show ?case
  proof (cases "match_here rx prev s")
    case None
    show ?thesis
    proof (cases s)
      case Nil
      with None show ?thesis by (simp add: sub_from.simps [of rx repl prev "[]"])
    next
      case (Cons c cs)
      from "1.IH"(1) [OF None Cons r] have "set (sub_from rx repl (Some c) cs) \<subseteq> set cs \<union> R" .
      with None Cons show ?thesis
        by (auto simp: sub_from.simps [of rx repl prev "c # cs"])
    qed
  next
    case (Some m)
    obtain gs rest where m: "m = (gs, rest)" by (cases m)
    show ?thesis
    proof (cases "length s - length rest = 0")
      case True
      show ?thesis
      proof (cases s)
        case Nil
        with Some m r [of gs] show ?thesis
          by (auto simp: sub_from.simps [of rx repl prev "[]"])
      next
        case (Cons c cs)
        from "1.IH"(2) [OF Some m [symmetric] refl True Cons r]
        have "set (sub_from rx repl (Some c) cs) \<subseteq> set cs \<union> R" .
        with Some m True Cons r [of gs] show ?thesis
          by (auto simp: sub_from.simps [of rx repl prev "c # cs"])
      qed
    next
      case False
      let ?n = "length s - length rest"
      from "1.IH"(3) [OF Some m [symmetric] refl False r]
      have "set (sub_from rx repl (Some (s ! (?n - 1))) (drop ?n s)) \<subseteq> set (drop ?n s) \<union> R" .
      moreover have "set (drop ?n s) \<subseteq> set s" by (rule set_drop_subset)
      ultimately show ?thesis
        using Some m False r [of gs]
        by (auto simp: sub_from.simps [of rx repl prev s] Let_def)
    qed
  qed
qed

lemma set_collapse_whitespace: "set (collapse_whitespace s) \<subseteq> set s \<union> {CHR '' ''}"
  unfolding collapse_whitespace_def re_sub_def by (rule set_sub_from) simp

lemma set_strip_brackets:
  "set (strip_brackets s) =
     set s - {CHR ''{'', CHR ''}'', CHR ''['', CHR '']'', CHR ''<'', CHR ''>''}"
  by (auto simp: strip_brackets_def str_replace_delete_char)

lemma set_normalised_strip_brackets:
  "set (strip (collapse_whitespace (strip_brackets s)))
     \<subseteq> (set s - {CHR ''{'', CHR ''}'', CHR ''['', CHR '']'', CHR ''<'', CHR ''>''})
         \<union> {CHR '' ''}"
  using set_strip [of "collapse_whitespace (strip_brackets s)"]
    set_collapse_whitespace [of "strip_brackets s"] set_strip_brackets [of s]
  by blast

lemma sanitize_for_tts_no_brackets:
  "CHR ''{'' \<notin> set (sanitize_for_tts raw)
   \<and> CHR ''['' \<notin> set (sanitize_for_tts raw)
   \<and> CHR ''<'' \<notin> set (sanitize_for_tts raw)"
proof (cases "raw = []")
  case True
  then show ?thesis by (simp add: sanitize_for_tts_def)
next
  case False
  define t5 where
    "t5 = strip (collapse_whitespace (remove_tts_unfriendly_chars
            (format_emails_for_speech (format_phone_numbers_for_speech (remove_forbidden raw)))))"
  show ?thesis
  proof (cases "CHR ''{'' \<in> set t5 \<or> CHR ''['' \<in> set t5 \<or> CHR ''<'' \<in> set t5")
    case True
    with False have "sanitize_for_tts raw = strip (collapse_whitespace (strip_brackets t5))"
      by (simp add: sanitize_for_tts_def Let_def t5_def)
    then show ?thesis using set_normalised_strip_brackets [of t5] by auto
  next
    case nb: False
    with False have "sanitize_for_tts raw = t5"
      by (simp add: sanitize_for_tts_def Let_def t5_def)
    then show ?thesis using nb by simp
  qed
qed
subsection \<open>The whitespace pass\<close>

lemma in_cls_Space: "in_cls Space = is_space"
  by (rule ext) simp

lemma match_here_plus_space:
  "match_here [plus Space] prev s =
     (if s \<noteq> [] \<and> is_space (hd s)
      then Some ([takeWhile is_space s], dropWhile is_space s) else None)"
proof (cases "s \<noteq> [] \<and> is_space (hd s)")
  case True
  then obtain c cs where s: "s = c # cs" and c: "is_space c" by (cases s) auto
  let ?n = "length (takeWhile is_space cs)"
  have cnt: "counts Space (Suc 0) None s = Suc ?n # rev [Suc 0..<Suc ?n]"
    using s c by (simp add: counts_def in_cls_Space)
  have tk: "take (Suc ?n) s = takeWhile is_space s" and dr: "drop (Suc ?n) s = dropWhile is_space s"
    using s c by (simp_all add: takeWhile_eq_take [symmetric] dropWhile_eq_drop [symmetric])
  show ?thesis using True by (simp add: plus_def cnt tk dr)
next
  case False
  then have "length (takeWhile is_space s) = 0" by (cases s) auto
  then have "counts Space 1 None s = []" by (simp add: counts_def in_cls_Space)
  with False show ?thesis by (simp add: plus_def)
qed

lemma collapse_whitespace_squeeze: "sub_from [plus Space] (\<lambda>gs. '' '') prev s = squeeze s"
proof (induction s arbitrary: prev rule: squeeze.induct)
  case 1
  show ?case
    by (simp only: sub_from.simps [of _ _ _ "[]"] match_here_plus_space) simp
next
  case (2 c cs)
  show ?case
  proof (cases "is_space c")
    case True
    let ?s = "c # cs"
    have len: "length ?s - length (dropWhile is_space ?s) = length (takeWhile is_space ?s)"
      by (metis add_diff_cancel_right' length_append takeWhile_dropWhile_id)
    have pos: "length (takeWhile is_space ?s) \<noteq> 0" using True by simp
    have dr: "drop (length (takeWhile is_space ?s)) ?s = dropWhile is_space cs"
      using True by (simp add: dropWhile_eq_drop [symmetric])
    show ?thesis
      apply (simp only: sub_from.simps [of _ _ prev "c # cs"] match_here_plus_space)
      using True "2.IH"(1) [OF True] len pos dr length_dropWhile_le [of is_space cs]
      apply (simp add: Let_def del: length_0_conv)
      done
  next
    case False
    show ?thesis
      apply (simp only: sub_from.simps [of _ _ prev "c # cs"] match_here_plus_space)
      using False "2.IH"(2) [OF False]
      apply simp
      done
  qed
qed

lemma collapse_whitespace_eq: "collapse_whitespace s = squeeze s"
  by (simp add: collapse_whitespace_def re_sub_def collapse_whitespace_squeeze)

lemma is_space_blank: "is_space CHR '' ''"
  by (simp add: is_space_def)

lemma squeeze_hd: "s \<noteq> [] \<Longrightarrow> \<not> is_space (hd s) \<Longrightarrow> squeeze s \<noteq> [] \<and> hd (squeeze s) = hd s"
  by (cases s) auto

lemma squeezed_squeeze: "squeezed (squeeze s)"
proof (induction s rule: squeeze.induct)
  case 1
  show ?case by (simp add: squeezed_def)
next
  case (2 c cs)
  show ?case
  proof (cases "is_space c")
    case True
    let ?r = "dropWhile is_space cs"
    have ih: "squeezed (squeeze ?r)" using "2.IH"(1) [OF True] .
    have "squeeze ?r = [] \<or> \<not> is_space (hd (squeeze ?r))"
    proof (cases "?r = []")
      case True
      then have "squeeze ?r = []" by (simp only: squeeze.simps)
      then show ?thesis by blast
    next
      case False
      then have "\<not> is_space (hd ?r)" by (rule hd_dropWhile)
      with False show ?thesis using squeeze_hd [of ?r] by simp
    qed
    with ih True show ?thesis
      by (auto simp: squeezed_def successively_Cons is_space_blank)
  next
    case False
    with "2.IH"(2) [OF False] show ?thesis
      using is_space_blank by (auto simp: squeezed_def successively_Cons)
  qed
qed

lemma squeeze_squeezed: "squeezed s \<Longrightarrow> squeeze s = s"
proof (induction s)
  case Nil
  show ?case by simp
next
  case (Cons c cs)
  then have tl: "squeezed cs" by (auto simp: squeezed_def successively_Cons)
  show ?case
  proof (cases "is_space c")
    case True
    with Cons.prems have c: "c = CHR '' ''" and nx: "cs = [] \<or> \<not> is_space (hd cs)"
      by (auto simp: squeezed_def successively_Cons)
    from nx have "dropWhile is_space cs = cs" by (simp add: dropWhile_eq_self_iff)
    with True c Cons.IH [OF tl] show ?thesis by simp
  next
    case False
    with Cons.IH [OF tl] show ?thesis by simp
  qed
qed

lemma squeezed_dropWhile: "squeezed s \<Longrightarrow> squeezed (dropWhile is_space s)"
proof -
  assume s: "squeezed s"
  have "s = takeWhile is_space s @ dropWhile is_space s" by simp
  then have "squeezed (takeWhile is_space s @ dropWhile is_space s)" using s by simp
  then show ?thesis
    unfolding squeezed_def by (simp add: successively_append_iff del: takeWhile_dropWhile_id)
qed

lemma squeezed_rev: "squeezed s \<Longrightarrow> squeezed (rev s)"
proof -
  have flip: "(\<lambda>x y. \<not> (is_space y \<and> is_space x)) = (\<lambda>a b. \<not> (is_space a \<and> is_space b))"
    by (auto simp: fun_eq_iff)
  assume "squeezed s"
  then show ?thesis
    unfolding squeezed_def by (simp only: successively_rev flip list_all_rev) 
qed

lemma squeezed_strip: "squeezed s \<Longrightarrow> squeezed (strip s)"
  unfolding strip_def by (intro squeezed_rev squeezed_dropWhile)

lemma trim_right_keeps_head:
  assumes "xs \<noteq> []" and "\<not> P (hd xs)"
  shows "rev (dropWhile P (rev xs)) \<noteq> [] \<and> hd (rev (dropWhile P (rev xs))) = hd xs"
proof -
  from assms obtain x xs' where xs: "xs = x # xs'" and x: "\<not> P x" by (cases xs) auto
  have "dropWhile P (rev xs' @ [x]) = dropWhile P (rev xs') @ [x]"
    using x by (simp add: dropWhile_append3)
  then show ?thesis by (simp add: xs)
qed

lemma strip_strip: "strip (strip s) = strip s"
proof -
  let ?a = "dropWhile is_space s"
  let ?z = "rev (dropWhile is_space (rev ?a))"
  have z: "strip s = ?z" by (simp add: strip_def)
  have "dropWhile is_space ?z = ?z"
  proof (cases "?a = []")
    case True
    show ?thesis by (simp only: True rev.simps dropWhile.simps)
  next
    case False
    then have nh: "\<not> is_space (hd ?a)" by (rule hd_dropWhile)
    from trim_right_keeps_head [of ?a is_space, OF False nh]
    have "hd ?z = hd ?a" by (rule conjunct2)
    with nh have "\<not> is_space (hd ?z)" by metis
    then have "?z = [] \<or> \<not> is_space (hd ?z)" by (rule disjI2)
    then show ?thesis by (simp only: dropWhile_eq_self_iff)
  qed
  then have "strip ?z = rev (dropWhile is_space (rev ?z))" by (simp add: strip_def)
  also have "\<dots> = ?z" by simp
  finally show ?thesis by (simp add: z)
qed

text \<open>A text that the whitespace pass and \<open>strip\<close> have produced is left unchanged by both.\<close>

lemma normalise_idem:
  "strip (collapse_whitespace (strip (collapse_whitespace s))) = strip (collapse_whitespace s)"
proof -
  have "squeezed (strip (squeeze s))" by (intro squeezed_strip squeezed_squeeze)
  then have "squeeze (strip (squeeze s)) = strip (squeeze s)" by (rule squeeze_squeezed)
  then show ?thesis by (simp add: collapse_whitespace_eq strip_strip)
qed
subsection \<open>The symbol pass\<close>

lemma str_replace_char:
  "str_replace [c] new s = concat (map (\<lambda>x. if x = c then new else [x]) s)"
proof (induction s)
  case Nil
  then show ?case by (simp add: str_replace.simps)
next
  case (Cons x xs)
  then show ?case by (subst str_replace.simps) auto
qed

lemma str_replace_absent: "c \<notin> set s \<Longrightarrow> str_replace [c] new s = s"
  unfolding str_replace_char by (induction s) auto

lemma set_str_replace_char: "set (str_replace [c] new s) \<subseteq> (set s - {c}) \<union> set new"
  unfolding str_replace_char by (induction s) auto

lemma replace_all_clean:
  assumes "\<forall>(old, new)\<in>set rs. (\<exists>c. old = [c]) \<and> set new \<inter> C = {}"
  shows "set (foldl (\<lambda>t (old, new). str_replace old new t) s rs)
           \<inter> (C \<inter> {c. [c] \<in> fst ` set rs}) = {}"
  using assms
proof (induction rs rule: rev_induct)
  case Nil
  show ?case by simp
next
  case (snoc r rs)
  obtain old new where r: "r = (old, new)" by (cases r)
  from snoc.prems r obtain c where old: "old = [c]" and new: "set new \<inter> C = {}" by auto
  let ?t = "foldl (\<lambda>t (old, new). str_replace old new t) s rs"
  have ih: "set ?t \<inter> (C \<inter> {c. [c] \<in> fst ` set rs}) = {}"
    using snoc by simp
  have "set (str_replace [c] new ?t) \<subseteq> (set ?t - {c}) \<union> set new"
    by (rule set_str_replace_char)
  with ih new show ?case by (auto simp: r old)
qed

lemma replace_all_absent:
  "\<forall>(old, new)\<in>set rs. \<exists>c. old = [c] \<and> c \<notin> set s \<Longrightarrow>
   foldl (\<lambda>t (old, new). str_replace old new t) s rs = s"
  by (induction rs) (auto simp: str_replace_absent)

lemma unfriendly_chars:
  "unfriendly = {CHR ''#'', CHR ''@'', CHR ''$'', CHR ''%'', CHR ''&'', CHR ''*'', CHR ''_'',
                 CHR ''|'', CHR ''~'', CHR ''^'', CHR ''`'', CHR ''='', CHR ''+''}"
  by (auto simp: unfriendly_def replacements_def)

lemma replacements_clean:
  "\<forall>(old, new)\<in>set replacements. (\<exists>c. old = [c]) \<and> set new \<inter> unfriendly = {}"
  unfolding unfriendly_chars by (simp add: replacements_def)

lemma replacements_single:
  "set s \<inter> unfriendly = {} \<Longrightarrow>
   \<forall>(old, new)\<in>set replacements. \<exists>c. old = [c] \<and> c \<notin> set s"
  unfolding unfriendly_chars by (simp add: replacements_def)

lemma blank_friendly: "CHR '' '' \<notin> unfriendly"
  by (simp add: unfriendly_chars)

lemma set_normalise: "set (strip (collapse_whitespace s)) \<subseteq> set s \<union> {CHR '' ''}"
  using set_strip [of "collapse_whitespace s"] set_collapse_whitespace [of s] by blast

lemma remove_tts_unfriendly_chars_clean:
  "set (remove_tts_unfriendly_chars s) \<inter> unfriendly = {}"
proof -
  let ?t = "foldl (\<lambda>t (old, new). str_replace old new t) s replacements"
  have "set ?t \<inter> (unfriendly \<inter> {c. [c] \<in> fst ` set replacements}) = {}"
    using replacements_clean by (rule replace_all_clean)
  then have "set ?t \<inter> unfriendly = {}" by (simp add: unfriendly_def)
  moreover have "set (remove_tts_unfriendly_chars s) \<subseteq> set ?t \<union> {CHR '' ''}"
    unfolding remove_tts_unfriendly_chars_def by (rule set_normalise)
  ultimately show ?thesis using blank_friendly by blast
qed

lemma remove_tts_unfriendly_chars_fixed:
  assumes "set s \<inter> unfriendly = {}" and "strip (collapse_whitespace s) = s"
  shows "remove_tts_unfriendly_chars s = s"
  using replace_all_absent [OF replacements_single [OF assms(1)]] assms(2)
  by (simp add: remove_tts_unfriendly_chars_def)

subsection \<open>The shape of every output\<close>

text \<open>
  The output is empty, or the whitespace-normalised text after the symbol pass, or that
  text with the six bracket characters deleted and normalised again.
\<close>

lemma sanitize_for_tts_shape:
  "\<exists>t. set t \<inter> unfriendly = {}
       \<and> (sanitize_for_tts raw = strip (collapse_whitespace t))"
proof (cases "raw = []")
  case True
  have "strip (collapse_whitespace []) = []"
    by (simp add: collapse_whitespace_eq strip_def)
  with True show ?thesis by (intro exI [of _ "[]"]) (simp add: sanitize_for_tts_def)
next
  case False
  define t4 where
    "t4 = remove_tts_unfriendly_chars
            (format_emails_for_speech (format_phone_numbers_for_speech (remove_forbidden raw)))"
  define t5 where "t5 = strip (collapse_whitespace t4)"
  have c4: "set t4 \<inter> unfriendly = {}"
    unfolding t4_def by (rule remove_tts_unfriendly_chars_clean)
  show ?thesis
  proof (cases "CHR ''{'' \<in> set t5 \<or> CHR ''['' \<in> set t5 \<or> CHR ''<'' \<in> set t5")
    case True
    with False have out: "sanitize_for_tts raw = strip (collapse_whitespace (strip_brackets t5))"
      by (simp add: sanitize_for_tts_def Let_def t5_def t4_def)
    have "set t5 \<subseteq> set t4 \<union> {CHR '' ''}" unfolding t5_def by (rule set_normalise)
    with c4 blank_friendly have "set t5 \<inter> unfriendly = {}" by blast
    then have "set (strip_brackets t5) \<inter> unfriendly = {}"
      using set_strip_brackets [of t5] by blast
    with out show ?thesis by blast
  next
    case nb: False
    with False have "sanitize_for_tts raw = strip (collapse_whitespace t4)"
      by (simp add: sanitize_for_tts_def Let_def t5_def t4_def)
    with c4 show ?thesis by blast
  qed
qed

text \<open>
  Where the denylist, phone and e-mail passes find nothing to rewrite in an output of the
  sanitizer, a second run changes nothing: the symbol pass, the whitespace pass and the
  safety net leave every output as it is.
\<close>

theorem sanitize_for_tts_idempotent_when_stable:
  assumes "remove_forbidden (sanitize_for_tts x) = sanitize_for_tts x"
    and "format_phone_numbers_for_speech (sanitize_for_tts x) = sanitize_for_tts x"
    and "format_emails_for_speech (sanitize_for_tts x) = sanitize_for_tts x"
  shows "sanitize_for_tts (sanitize_for_tts x) = sanitize_for_tts x"
proof -
  let ?y = "sanitize_for_tts x"
  from sanitize_for_tts_shape [of x] obtain t
    where t: "set t \<inter> unfriendly = {}" and y: "?y = strip (collapse_whitespace t)"
    by blast
  have norm: "strip (collapse_whitespace ?y) = ?y"
    unfolding y by (rule normalise_idem)
  have "set ?y \<subseteq> set t \<union> {CHR '' ''}" unfolding y by (rule set_normalise)
  with t blank_friendly have clean: "set ?y \<inter> unfriendly = {}" by blast
  have sym: "remove_tts_unfriendly_chars ?y = ?y"
    using clean norm by (rule remove_tts_unfriendly_chars_fixed)
  have nb: "\<not> (CHR ''{'' \<in> set ?y \<or> CHR ''['' \<in> set ?y \<or> CHR ''<'' \<in> set ?y)"
    using sanitize_for_tts_no_brackets [of x] by blast
  show ?thesis
  proof (cases "?y = []")
    case True
    then show ?thesis by (simp add: sanitize_for_tts_def)
  next
    case False
    have "sanitize_for_tts ?y =
            (let t5 = strip (collapse_whitespace ?y)
             in if CHR ''{'' \<in> set t5 \<or> CHR ''['' \<in> set t5 \<or> CHR ''<'' \<in> set t5
                then strip (collapse_whitespace (strip_brackets t5)) else t5)"
      using False by (subst sanitize_for_tts_def) (simp add: assms sym Let_def)
    also have "\<dots> = ?y" using nb by (simp add: norm Let_def)
    finally show ?thesis .
  qed
qed

text \<open>
  Claim C7. No output of the sanitizer holds \<open>{\<close>, \<open>[\<close> or \<open><\<close>: where one is left
  after the whitespace pass, the safety net deletes all six bracket characters. On the
  sample sentence the output is \<open>me call for you\<close> (the denylist also takes \<open>Let \<close>, which
  \<open>\blet\s+\<close> matches under \<open>IGNORECASE\<close>), and \<open>initiate_\<close> does not occur in it.
\<close>

theorem sanitize_for_tts_strips_brackets:
  "CHR ''{'' \<notin> set (sanitize_for_tts raw)
   \<and> CHR ''['' \<notin> set (sanitize_for_tts raw)
   \<and> CHR ''<'' \<notin> set (sanitize_for_tts raw)
   \<and> sanitize_for_tts ''Let me call initiate_booking for you'' = ''me call for you''
   \<and> \<not> sublist ''initiate_'' (sanitize_for_tts ''Let me call initiate_booking for you'')"
proof -
  have out: "sanitize_for_tts ''Let me call initiate_booking for you'' = ''me call for you''"
    by code_simp
  have "\<not> str_in ''initiate_'' ''me call for you''" by simp
  then have "\<not> sublist ''initiate_'' ''me call for you''"
    unfolding str_in_sublist .
  with out sanitize_for_tts_no_brackets [of raw] show ?thesis by simp
qed

text \<open>
  Claim C6 at the input \<open>_API\<close>. The underscore is a word character, so \<open>\bAPI\b\<close> does
  not match there; the symbol pass, which runs after the denylist pass, then turns the
  underscore into a blank, and the output is \<open>API\<close>: a word of the denylist, which the
  module says must never reach the speech output and which the repository's test looks
  for in the output. A second run deletes it, so the two runs differ. In the same way
  \<open>REST_API\<close> comes out as \<open>REST API\<close>.
\<close>

theorem sanitize_for_tts_second_run_differs:
  "sanitize_for_tts ''_API'' = ''API''
   \<and> sanitize_for_tts ''API'' = []
   \<and> sanitize_for_tts (sanitize_for_tts ''_API'') \<noteq> sanitize_for_tts ''_API''
   \<and> sanitize_for_tts ''REST_API'' = ''REST API''"
proof -
  have a: "sanitize_for_tts ''_API'' = ''API''" by code_simp
  have b: "sanitize_for_tts ''API'' = []" by code_simp
  have c: "sanitize_for_tts ''REST_API'' = ''REST API''" by code_simp
  from a b c show ?thesis by simp
qed

text \<open>
  An input with an unfriendly symbol whose output the first three passes leave alone.
\<close>

theorem sanitize_for_tts_idempotent_when_stable_witness:
  "sanitize_for_tts ''a_b'' = ''a b''
   \<and> remove_forbidden ''a b'' = ''a b''
   \<and> format_phone_numbers_for_speech ''a b'' = ''a b''
   \<and> format_emails_for_speech ''a b'' = ''a b''
   \<and> sanitize_for_tts (sanitize_for_tts ''a_b'') = sanitize_for_tts ''a_b''"
proof -
  have y: "sanitize_for_tts ''a_b'' = ''a b''" by code_simp
  have f: "remove_forbidden ''a b'' = ''a b''" by code_simp
  have p: "format_phone_numbers_for_speech ''a b'' = ''a b''" by code_simp
  have e: "format_emails_for_speech ''a b'' = ''a b''" by code_simp
  have "sanitize_for_tts (sanitize_for_tts ''a_b'') = sanitize_for_tts ''a_b''"
    by (rule sanitize_for_tts_idempotent_when_stable) (simp_all only: y f p e)
  with y f p e show ?thesis by (intro conjI)
qed

section \<open>Verification of the inbound pumps\<close>

lemma twilio_function_call_recovers:
  assumes "twilio_call_try e st (request_name m)
             (if truthy (request_id m) then FromRequest (request_id m) else Generated now)
             (request_arguments m) now = (st1, Some ex)"
    and "\<not> agent_send_raises e (length (to_agent st1))"
  shows "twilio_function_call e st m now =
           (st1\<lparr>to_agent := to_agent st1
               @ [FunctionCallResponse
                    (if truthy (request_id m) then FromRequest (request_id m) else Generated now)
                    apology]\<rparr>, None)"
  using assms by (simp add: twilio_function_call_def Let_def send_agent_def)

lemma browser_function_call_recovers:
  assumes "browser_call_try e st (request_name m) (FromRequest (request_id m))
             (request_arguments m) = (st1, Some ex)"
    and "\<not> agent_send_raises e (length (to_agent_b st1))"
  shows "browser_function_call e st m =
           (st1\<lparr>to_agent_b := to_agent_b st1
               @ [FunctionCallResponse (FromRequest (request_id m)) apology]\<rparr>, None)"
  using assms by (simp add: browser_function_call_def Let_def send_agent_b_def)

lemma twilio_step_function_call:
  "dget m ''type'' JNull = JStr ''FunctionCallRequest'' \<Longrightarrow>
   deepgram_to_twilio_step e st (Message (JObj m)) now = twilio_function_call e st m now"
  by (simp add: deepgram_to_twilio_step_def)

lemma browser_step_function_call:
  "dget m ''type'' JNull = JStr ''FunctionCallRequest'' \<Longrightarrow>
   deepgram_to_browser_step e st (Message (JObj m)) = browser_function_call e st m"
  by (simp add: deepgram_to_browser_step_def)

text \<open>
  Claim C8. Let a \<open>FunctionCallRequest\<close> arrive and let \<open>handle_function_call\<close> raise, and
  let the agent socket accept the next message. Then, in the telephony pump and in the
  browser pump alike, handling the frame raises nothing and sends the agent exactly one
  message: the \<open>FunctionCallResponse\<close> with the id of the request (the telephony pump makes
  one up when the request has none) whose output is the object with the single field
  \<open>speak\<close> and the text "I'm sorry, something went wrong. Could you try again?"; the pump
  then goes on with the frames that follow. The id is the request's \<open>function_call_id\<close>
  when that is set. The same recovery covers an exception raised anywhere in the \<open>try\<close>
  block.
\<close>

theorem function_call_exception_is_answered:
  assumes "dget m ''type'' JNull = JStr ''FunctionCallRequest''"
    and "handle_function_call e (request_name m) (request_arguments m) (call_sid st) = Raised ex"
    and "\<not> agent_send_raises e (length (to_agent st))"
    and "handle_function_call e (request_name m) (request_arguments m) (browser_session_id bst)
           = Raised ex"
    and "\<not> agent_send_raises e (length (to_agent_b bst))"
  shows "deepgram_to_twilio e st ((Message (JObj m), now) # frames) =
           deepgram_to_twilio e
             (st\<lparr>to_agent := to_agent st
                @ [FunctionCallResponse
                     (if truthy (request_id m) then FromRequest (request_id m) else Generated now)
                     apology]\<rparr>) frames
       \<and> deepgram_to_browser e bst (Message (JObj m) # bframes) =
           deepgram_to_browser e
             (bst\<lparr>to_agent_b := to_agent_b bst
                @ [FunctionCallResponse (FromRequest (request_id m)) apology]\<rparr>) bframes
       \<and> (truthy (dget m ''function_call_id'' JNull) \<longrightarrow>
            request_id m = dget m ''function_call_id'' JNull)
       \<and> (\<forall>st1 ex1.
            twilio_call_try e st (request_name m)
              (if truthy (request_id m) then FromRequest (request_id m) else Generated now)
              (request_arguments m) now = (st1, Some ex1)
            \<and> \<not> agent_send_raises e (length (to_agent st1)) \<longrightarrow>
            deepgram_to_twilio_step e st (Message (JObj m)) now =
              (st1\<lparr>to_agent := to_agent st1
                  @ [FunctionCallResponse
                       (if truthy (request_id m) then FromRequest (request_id m)
                        else Generated now) apology]\<rparr>, None))
       \<and> (\<forall>bst1 ex1.
            browser_call_try e bst (request_name m) (FromRequest (request_id m))
              (request_arguments m) = (bst1, Some ex1)
            \<and> \<not> agent_send_raises e (length (to_agent_b bst1)) \<longrightarrow>
            deepgram_to_browser_step e bst (Message (JObj m)) =
              (bst1\<lparr>to_agent_b := to_agent_b bst1
                  @ [FunctionCallResponse (FromRequest (request_id m)) apology]\<rparr>, None))
       \<and> apology =
           JObj [(''speak'', JStr ''I'm sorry, something went wrong. Could you try again?'')]"
proof -
  let ?fid = "if truthy (request_id m) then FromRequest (request_id m) else Generated now"
  have t: "twilio_call_try e st (request_name m) ?fid (request_arguments m) now = (st, Some ex)"
    using assms(2) by (simp add: twilio_call_try_def)
  have ts: "deepgram_to_twilio_step e st (Message (JObj m)) now =
              (st\<lparr>to_agent := to_agent st @ [FunctionCallResponse ?fid apology]\<rparr>, None)"
    using twilio_function_call_recovers [OF t assms(3)]
    by (simp only: twilio_step_function_call [OF assms(1)])
  have a: "deepgram_to_twilio e st ((Message (JObj m), now) # frames) =
           deepgram_to_twilio e
             (st\<lparr>to_agent := to_agent st @ [FunctionCallResponse ?fid apology]\<rparr>) frames"
    by (simp add: ts)
  have b: "browser_call_try e bst (request_name m) (FromRequest (request_id m))
             (request_arguments m) = (bst, Some ex)"
    using assms(4) by (simp add: browser_call_try_def)
  have bs: "deepgram_to_browser_step e bst (Message (JObj m)) =
              (bst\<lparr>to_agent_b := to_agent_b bst
                  @ [FunctionCallResponse (FromRequest (request_id m)) apology]\<rparr>, None)"
    using browser_function_call_recovers [OF b assms(5)]
    by (simp only: browser_step_function_call [OF assms(1)])
  have c: "deepgram_to_browser e bst (Message (JObj m) # bframes) =
           deepgram_to_browser e
             (bst\<lparr>to_agent_b := to_agent_b bst
                @ [FunctionCallResponse (FromRequest (request_id m)) apology]\<rparr>) bframes"
    by (simp add: bs)
  have d: "truthy (dget m ''function_call_id'' JNull) \<longrightarrow>
            request_id m = dget m ''function_call_id'' JNull"
    by (simp add: request_id_def py_or_def)
  have f: "\<forall>st1 ex1.
            twilio_call_try e st (request_name m) ?fid (request_arguments m) now = (st1, Some ex1)
            \<and> \<not> agent_send_raises e (length (to_agent st1)) \<longrightarrow>
            deepgram_to_twilio_step e st (Message (JObj m)) now =
              (st1\<lparr>to_agent := to_agent st1 @ [FunctionCallResponse ?fid apology]\<rparr>, None)"
    using twilio_function_call_recovers [of e st m now]
    by (simp only: twilio_step_function_call [OF assms(1)]) blast
  have g: "\<forall>bst1 ex1.
            browser_call_try e bst (request_name m) (FromRequest (request_id m))
              (request_arguments m) = (bst1, Some ex1)
            \<and> \<not> agent_send_raises e (length (to_agent_b bst1)) \<longrightarrow>
            deepgram_to_browser_step e bst (Message (JObj m)) =
              (bst1\<lparr>to_agent_b := to_agent_b bst1
                  @ [FunctionCallResponse (FromRequest (request_id m)) apology]\<rparr>, None)"
    using browser_function_call_recovers [of e bst m]
    by (simp only: browser_step_function_call [OF assms(1)]) blast
  have h: "apology =
           JObj [(''speak'', JStr ''I'm sorry, something went wrong. Could you try again?'')]"
    by (simp add: apology_def)
  from a c d f g h show ?thesis by (intro conjI)
qed
text \<open>
  A call whose handler raises, followed by an audio frame: the agent gets the apology,
  spelled out, under the id \<open>fc_1\<close>, and the audio frame is still forwarded to the client.
\<close>

theorem function_call_exception_is_answered_witness:
  "deepgram_to_twilio
     \<lparr>handle_function_call = (\<lambda>name args sid. Raised ''gateway down''),
      agent_send_raises = (\<lambda>n. False), client_send_raises = (\<lambda>n. False)\<rparr>
     \<lparr>to_agent = [], to_twilio = [], transcript = [], last_user_speech = None,
      context_turns = [], call_sid = JStr ''CA1'',
      call_metadata = [(''stream_sid'', JStr ''MZ1'')]\<rparr>
     [(Message (JObj [(''type'', JStr ''FunctionCallRequest''),
                      (''function_name'', JStr ''book_appointment''),
                      (''function_call_id'', JStr ''fc_1''), (''input'', JObj [])]), 0),
      (Binary ''abc'', 1)]
   = (\<lparr>to_agent = [FunctionCallResponse (FromRequest (JStr ''fc_1''))
                     (JObj [(''speak'', JStr ''I'm sorry, something went wrong. Could you try again?'')])],
       to_twilio = [Media (JStr ''MZ1'') ''abc''], transcript = [], last_user_speech = None,
       context_turns = [], call_sid = JStr ''CA1'',
       call_metadata = [(''stream_sid'', JStr ''MZ1'')]\<rparr>, None)
   \<and> deepgram_to_browser
     \<lparr>handle_function_call = (\<lambda>name args sid. Raised ''gateway down''),
      agent_send_raises = (\<lambda>n. False), client_send_raises = (\<lambda>n. False)\<rparr>
     \<lparr>to_agent_b = [], to_browser = [], browser_session_id = JStr ''browser-1''\<rparr>
     [Message (JObj [(''type'', JStr ''FunctionCallRequest''),
                     (''function_name'', JStr ''book_appointment''),
                     (''function_call_id'', JStr ''fc_1''), (''input'', JObj [])]),
      Binary ''abc'']
   = (\<lparr>to_agent_b = [FunctionCallResponse (FromRequest (JStr ''fc_1''))
                     (JObj [(''speak'', JStr ''I'm sorry, something went wrong. Could you try again?'')])],
       to_browser = [WebsocketAudio ''abc''], browser_session_id = JStr ''browser-1''\<rparr>,
      None)"
proof -
  let ?e = "\<lparr>handle_function_call = (\<lambda>name args sid. Raised ''gateway down''),
      agent_send_raises = (\<lambda>n. False), client_send_raises = (\<lambda>n. False)\<rparr>"
  let ?st = "\<lparr>to_agent = [], to_twilio = [], transcript = [], last_user_speech = None,
      context_turns = [], call_sid = JStr ''CA1'',
      call_metadata = [(''stream_sid'', JStr ''MZ1'')]\<rparr>"
  let ?bst = "\<lparr>to_agent_b = [], to_browser = [], browser_session_id = JStr ''browser-1''\<rparr>"
  let ?m = "[(''type'', JStr ''FunctionCallRequest''),
             (''function_name'', JStr ''book_appointment''),
             (''function_call_id'', JStr ''fc_1''), (''input'', JObj [])]"
  have ty: "dget ?m ''type'' JNull = JStr ''FunctionCallRequest''" by (simp add: dget_def)
  have h: "handle_function_call ?e (request_name ?m) (request_arguments ?m) (call_sid ?st)
             = Raised ''gateway down''" by simp
  have s: "\<not> agent_send_raises ?e (length (to_agent ?st))" by simp
  have hb: "handle_function_call ?e (request_name ?m) (request_arguments ?m)
              (browser_session_id ?bst) = Raised ''gateway down''" by simp
  have sb: "\<not> agent_send_raises ?e (length (to_agent_b ?bst))" by simp
  have fid: "request_id ?m = JStr ''fc_1''" by (simp add: request_id_def py_or_def dget_def)
  note inst = function_call_exception_is_answered [OF ty h s hb sb]
  have a: "deepgram_to_twilio ?e ?st [(Message (JObj ?m), 0), (Binary ''abc'', 1)]
     = (\<lparr>to_agent = [FunctionCallResponse (FromRequest (JStr ''fc_1''))
                     (JObj [(''speak'', JStr ''I'm sorry, something went wrong. Could you try again?'')])],
       to_twilio = [Media (JStr ''MZ1'') ''abc''], transcript = [], last_user_speech = None,
       context_turns = [], call_sid = JStr ''CA1'',
       call_metadata = [(''stream_sid'', JStr ''MZ1'')]\<rparr>, None)"
    by (simp only: inst [THEN conjunct1])
       (simp add: fid deepgram_to_twilio_step_def send_twilio_def dget_def apology_def)
  have b: "deepgram_to_browser ?e ?bst [Message (JObj ?m), Binary ''abc'']
     = (\<lparr>to_agent_b = [FunctionCallResponse (FromRequest (JStr ''fc_1''))
                     (JObj [(''speak'', JStr ''I'm sorry, something went wrong. Could you try again?'')])],
       to_browser = [WebsocketAudio ''abc''], browser_session_id = JStr ''browser-1''\<rparr>,
      None)"
    by (simp only: inst [THEN conjunct2, THEN conjunct1])
       (simp add: fid deepgram_to_browser_step_def send_browser_def apology_def)
  from a b show ?thesis by (rule conjI)
qed

text \<open>
  Claim C9, as the code has it. For an \<open>Error\<close> frame:
  \<^item> in the browser pump, the code \<open>CLIENT_MESSAGE_TIMEOUT\<close> sends nothing and changes
    nothing; any other code (also a missing one) sends the client the error event with
    the frame's message, when the client socket accepts it;
  \<^item> in the telephony pump no code sends anything: the frame is logged or dropped, and the
    state stays as it is.
\<close>

theorem error_frame_handling:
  assumes "dget m ''type'' JNull = JStr ''Error''"
  shows "(dget m ''code'' (JStr []) = JStr ''CLIENT_MESSAGE_TIMEOUT'' \<longrightarrow>
            deepgram_to_browser_step e bst (Message (JObj m)) = (bst, None))
       \<and> (dget m ''code'' (JStr []) \<noteq> JStr ''CLIENT_MESSAGE_TIMEOUT''
            \<and> \<not> client_send_raises e (length (to_browser bst)) \<longrightarrow>
            deepgram_to_browser_step e bst (Message (JObj m)) =
              (bst\<lparr>to_browser := to_browser bst
                  @ [ErrorEvent (dget m ''message'' (JStr ''Unknown error''))]\<rparr>, None))
       \<and> deepgram_to_twilio_step e st (Message (JObj m)) now = (st, None)"
  using assms
  by (simp add: deepgram_to_browser_step_def deepgram_to_twilio_step_def send_browser_def
        Let_def)

text \<open>An idle timeout and a real error, in the browser pump and in the telephony pump.\<close>

theorem error_frame_handling_witness:
  "deepgram_to_browser
     \<lparr>handle_function_call = (\<lambda>name args sid. Raised ''unused''),
      agent_send_raises = (\<lambda>n. False), client_send_raises = (\<lambda>n. False)\<rparr>
     \<lparr>to_agent_b = [], to_browser = [], browser_session_id = JStr ''browser-1''\<rparr>
     [Message (JObj [(''type'', JStr ''Error''), (''code'', JStr ''CLIENT_MESSAGE_TIMEOUT'')]),
      Message (JObj [(''type'', JStr ''Error''), (''code'', JStr ''INTERNAL_SERVER_ERROR''),
                     (''message'', JStr ''think provider failed'')])]
   = (\<lparr>to_agent_b = [], to_browser = [ErrorEvent (JStr ''think provider failed'')],
       browser_session_id = JStr ''browser-1''\<rparr>, None)"
proof -
  let ?e = "\<lparr>handle_function_call = (\<lambda>name args sid. Raised ''unused''),
      agent_send_raises = (\<lambda>n. False), client_send_raises = (\<lambda>n. False)\<rparr>"
  let ?bst = "\<lparr>to_agent_b = [], to_browser = [], browser_session_id = JStr ''browser-1''\<rparr>"
  let ?m1 = "[(''type'', JStr ''Error''), (''code'', JStr ''CLIENT_MESSAGE_TIMEOUT'')]"
  let ?m2 = "[(''type'', JStr ''Error''), (''code'', JStr ''INTERNAL_SERVER_ERROR''),
              (''message'', JStr ''think provider failed'')]"
  have t1: "dget ?m1 ''type'' JNull = JStr ''Error''" by (simp add: dget_def)
  have t2: "dget ?m2 ''type'' JNull = JStr ''Error''" by (simp add: dget_def)
  have c1: "dget ?m1 ''code'' (JStr []) = JStr ''CLIENT_MESSAGE_TIMEOUT''"
    by (simp add: dget_def)
  have c2: "dget ?m2 ''code'' (JStr []) \<noteq> JStr ''CLIENT_MESSAGE_TIMEOUT''
            \<and> \<not> client_send_raises ?e (length (to_browser ?bst))"
    by (simp add: dget_def)
  have s1: "deepgram_to_browser_step ?e ?bst (Message (JObj ?m1)) = (?bst, None)"
    using error_frame_handling [OF t1, THEN conjunct1] c1 by (rule mp)
  have s2: "deepgram_to_browser_step ?e ?bst (Message (JObj ?m2)) =
              (?bst\<lparr>to_browser := to_browser ?bst
                  @ [ErrorEvent (dget ?m2 ''message'' (JStr ''Unknown error''))]\<rparr>, None)"
    using error_frame_handling [OF t2, THEN conjunct2, THEN conjunct1] c2 by (rule mp)
  show ?thesis
    by (simp add: s1 s2 dget_def)
qed

text \<open>
  Claim C9 as stated fails in the telephony pump: an \<open>Error\<close> frame whose code is not the
  idle timeout leaves the client without any message.
\<close>

theorem error_frame_telephony_counterexample:
  "deepgram_to_twilio
     \<lparr>handle_function_call = (\<lambda>name args sid. Raised ''unused''),
      agent_send_raises = (\<lambda>n. False), client_send_raises = (\<lambda>n. False)\<rparr>
     \<lparr>to_agent = [], to_twilio = [], transcript = [], last_user_speech = None,
      context_turns = [], call_sid = JStr ''CA1'',
      call_metadata = [(''stream_sid'', JStr ''MZ1'')]\<rparr>
     [(Message (JObj [(''type'', JStr ''Error''), (''code'', JStr ''INTERNAL_SERVER_ERROR''),
                      (''message'', JStr ''think provider failed'')]), 0)]
   = (\<lparr>to_agent = [], to_twilio = [], transcript = [], last_user_speech = None,
       context_turns = [], call_sid = JStr ''CA1'',
       call_metadata = [(''stream_sid'', JStr ''MZ1'')]\<rparr>, None)"
  by (simp add: deepgram_to_twilio_step_def dget_def)

end
